theory Spec2Isabelle
  imports Main "HOL-Library.Word" "HOL-Library.AList"
begin

section \<open>JavaScript numbers\<close>

text \<open>
  Zoom levels, tile coordinates, levels of detail and pixel sizes are JavaScript numbers
  holding integers; they are modelled as \<open>int\<close>. The operators \<open><<\<close> and \<open>>>\<close> first
  convert their left operand to a signed 32-bit integer and use the shift count modulo 32;
  their result is again a signed 32-bit integer.
\<close>

definition js_shl :: "int \<Rightarrow> int \<Rightarrow> int" where
  "js_shl a n = sint (push_bit (nat (n mod 32)) (word_of_int a :: 32 word))"

definition js_sar :: "int \<Rightarrow> int \<Rightarrow> int" where
  "js_sar a n = sint (signed_drop_bit (nat (n mod 32)) (word_of_int a :: 32 word))"

text \<open>
  \<open>difference >= bestDifference\<close> where \<open>bestDifference\<close> may be \<open>undefined\<close>: a comparison
  with \<open>undefined\<close> is false.
\<close>

definition js_ge :: "int \<Rightarrow> int option \<Rightarrow> bool" where
  "js_ge d b = (case b of None \<Rightarrow> False | Some b' \<Rightarrow> b' \<le> d)"

section \<open>Data model\<close>

record point =
  pt_x :: int
  pt_y :: int

record rect =
  rc_x :: int
  rc_y :: int
  rc_w :: int
  rc_h :: int

text \<open>
  An image element: its identity as a DOM object, and the arguments \<open>(coord, zoom, lod)\<close>
  of \<open>getTileUrl\<close> that its \<open>src\<close> was built from (the URL text itself is left out).
\<close>

record image =
  img_id :: nat
  img_coord :: point
  img_zoom :: int
  img_lod :: int

text \<open>
  A mipmap is a sparse array of images indexed by LOD: a list whose holes are \<open>None\<close>.
  The image cache is the nest of sparse arrays \<open>imageCache[zoom][y][x]\<close>; each level is
  read with optional chaining, so a missing level reads as \<open>undefined\<close>.
\<close>

type_synonym mipmap = "image option list"

type_synonym cache = "int \<Rightarrow> (int \<Rightarrow> (int \<Rightarrow> mipmap option) option) option"

text \<open>A canvas records the \<open>drawImage\<close> calls made on its 2D context, in call order.\<close>

record drawcall =
  dc_image :: image
  dc_x :: int
  dc_y :: int
  dc_w :: int
  dc_h :: int

record canvas =
  cv_width :: int
  cv_height :: int
  cv_draws :: "drawcall list"

text \<open>
  \<open>createElement("canvas")\<close> followed by \<open>canvas.width = canvas.height = tileSize\<close>. The
  two attributes are unsigned longs limited to non-negative numbers: the value assigned is
  taken modulo \<open>2^32\<close>, and a result outside \<open>[0, 2^31)\<close> is replaced by the default, 300
  for the width and 150 for the height. Reading \<open>canvas.width\<close> or \<open>canvas.height\<close> gives
  the dimension so kept.
\<close>

definition canvas_dim :: "int \<Rightarrow> int \<Rightarrow> int" where
  "canvas_dim v dflt = (let u = v mod 4294967296 in if u < 2147483648 then u else dflt)"

definition createCanvas :: "int \<Rightarrow> canvas" where
  "createCanvas ts =
     \<lparr>cv_width = canvas_dim ts 300, cv_height = canvas_dim ts 150, cv_draws = []\<rparr>"

lemma createCanvas_in_range:
  "0 \<le> ts \<Longrightarrow> ts < 2147483648 \<Longrightarrow>
     createCanvas ts = \<lparr>cv_width = ts, cv_height = ts, cv_draws = []\<rparr>"
  by (simp add: createCanvas_def canvas_dim_def)

datatype layer = CanvasLayer canvas | ImageLayer image | NullLayer

text \<open>The candidate \<open>best\<close> of \<open>tileFromLarger\<close>.\<close>

record larger =
  lg_image :: image
  lg_x :: int
  lg_y :: int
  lg_levelsAbove :: int

text \<open>
  A fetch in flight: the image whose \<open>decode()\<close> promise is pending, with the values
  its completion callback has captured.
\<close>

record fetch =
  f_image :: image
  f_zoom :: int
  f_coord :: point
  f_lod :: int

text \<open>
  The map type object (\<open>_tileSize\<close>, \<open>levelOfDetail\<close>, \<open>maxOversample\<close>, \<open>imageCache\<close>,
  \<open>activeTiles\<close>) together with the part of the document it acts on: the pending decode
  promises, the children of the tile \<open>div\<close>s it has handed out, and the number of
  elements created so far, which names the next one.
\<close>

record state =
  tileSize :: int
  levelOfDetail :: int
  maxOversample :: int
  imageCache :: cache
  activeTiles :: "(nat \<times> point \<times> int) list"
  pending :: "fetch list"
  divs :: "nat \<Rightarrow> layer list option"
  next_id :: nat

section \<open>The cache store\<close>

definition cache_mipmap :: "cache \<Rightarrow> int \<Rightarrow> int \<Rightarrow> int \<Rightarrow> mipmap option" where
  "cache_mipmap ic zoom y x =
     (case ic zoom of
        None \<Rightarrow> None
      | Some ys \<Rightarrow> (case ys y of None \<Rightarrow> None | Some xs \<Rightarrow> xs x))"

text \<open>\<open>mipmap[lod]\<close>: a hole, an index past the end and a negative index read as \<open>undefined\<close>.\<close>

definition mipmap_get :: "mipmap \<Rightarrow> int \<Rightarrow> image option" where
  "mipmap_get m lod = (if 0 \<le> lod \<and> nat lod < length m then m ! nat lod else None)"

definition cache_get :: "cache \<Rightarrow> int \<Rightarrow> int \<Rightarrow> int \<Rightarrow> int \<Rightarrow> image option" where
  "cache_get ic zoom y x lod =
     (case cache_mipmap ic zoom y x of None \<Rightarrow> None | Some m \<Rightarrow> mipmap_get m lod)"

text \<open>\<open>mipmap[lod] = image\<close>: an index past the end extends the array with holes.\<close>

definition mipmap_set :: "mipmap \<Rightarrow> nat \<Rightarrow> image \<Rightarrow> mipmap" where
  "mipmap_set m lod img =
     (if lod < length m then m[lod := Some img]
      else m @ replicate (lod - length m) None @ [Some img])"

text \<open>
  \<open>(((imageCache[zoom] ??= [])[y] ??= [])[x] ??= [])[lod] = image\<close>. The LOD of a fetch
  is never negative, so it is an array index.
\<close>

definition cache_store :: "cache \<Rightarrow> int \<Rightarrow> int \<Rightarrow> int \<Rightarrow> int \<Rightarrow> image \<Rightarrow> cache" where
  "cache_store ic zoom y x lod img =
     (let ys = (case ic zoom of None \<Rightarrow> Map.empty | Some ys \<Rightarrow> ys);
          xs = (case ys y of None \<Rightarrow> Map.empty | Some xs \<Rightarrow> xs);
          m = (case xs x of None \<Rightarrow> [] | Some m \<Rightarrow> m)
      in ic(zoom \<mapsto> ys(y \<mapsto> xs(x \<mapsto> mipmap_set m (nat lod) img))))"

section \<open>Mipmap search\<close>

text \<open>The callback of \<open>mipmap.forEach\<close>, which visits the populated indices in ascending order.\<close>

definition nearest_visit ::
    "int \<Rightarrow> nat \<times> image option \<Rightarrow> image option \<times> int option \<Rightarrow> image option \<times> int option" where
  "nearest_visit targetLod entry best =
     (case snd entry of
        None \<Rightarrow> best
      | Some img \<Rightarrow>
          (let difference = \<bar>int (fst entry) - targetLod\<bar>
           in if \<not> js_ge difference (snd best) then (Some img, Some difference) else best))"

definition findNearestLod :: "mipmap \<Rightarrow> int \<Rightarrow> int option \<Rightarrow> image option \<times> int option" where
  "findNearestLod mipmap targetLod betterThan =
     fold (nearest_visit targetLod) (enumerate 0 mipmap) (None, betterThan)"

section \<open>Tiles from larger tiles\<close>

function tileFromLarger_loop ::
    "cache \<Rightarrow> int \<Rightarrow> point \<Rightarrow> int \<Rightarrow> int \<Rightarrow> larger option \<Rightarrow> int option
      \<Rightarrow> larger option \<times> int option" where
  "tileFromLarger_loop ic zoom coord lod levelsAbove best bestDifference =
     (let mipZoom = zoom - levelsAbove
      in if 0 \<le> mipZoom then
           (let mipCoord = \<lparr>pt_x = js_sar (pt_x coord) levelsAbove,
                            pt_y = js_sar (pt_y coord) levelsAbove\<rparr>
            in case cache_mipmap ic mipZoom (pt_y mipCoord) (pt_x mipCoord) of
                 None \<Rightarrow>
                   tileFromLarger_loop ic zoom coord lod (levelsAbove + 1) best bestDifference
               | Some mipmap \<Rightarrow>
                   (let found = findNearestLod mipmap (lod + levelsAbove) bestDifference
                    in tileFromLarger_loop ic zoom coord lod (levelsAbove + 1)
                         (case fst found of
                            None \<Rightarrow> best
                          | Some candidate \<Rightarrow>
                              Some \<lparr>lg_image = candidate, lg_x = pt_x mipCoord,
                                    lg_y = pt_y mipCoord, lg_levelsAbove = levelsAbove\<rparr>)
                         (snd found)))
         else (best, bestDifference))"
  by pat_completeness auto
termination
  by (relation "measure (\<lambda>(ic, zoom, coord, lod, levelsAbove, best, bestDifference).
                  nat (zoom - levelsAbove + 1))") auto

declare tileFromLarger_loop.simps [simp del]

definition tileFromLarger ::
    "int \<Rightarrow> cache \<Rightarrow> int \<Rightarrow> point \<Rightarrow> int \<Rightarrow> canvas option \<times> int option" where
  "tileFromLarger ts ic zoom coord lod =
     (case tileFromLarger_loop ic zoom coord lod 0 None None of
        (Some best, bestDifference) \<Rightarrow>
          (let ds = js_shl ts (lg_levelsAbove best)
           in (Some ((createCanvas ts)
                      \<lparr>cv_draws := [\<lparr>dc_image = lg_image best,
                        dc_x = (js_shl (lg_x best) (lg_levelsAbove best) - pt_x coord) * ts,
                        dc_y = (js_shl (lg_y best) (lg_levelsAbove best) - pt_y coord) * ts,
                        dc_w = ds, dc_h = ds\<rparr>]\<rparr>),
               bestDifference))
      | (None, bestDifference) \<Rightarrow> (None, None))"

section \<open>Tiles from smaller tiles\<close>

text \<open>The child tile \<open>cc\<close> and its destination rectangle \<open>cd\<close> for the loop indices \<open>i\<close>, \<open>j\<close>.\<close>

definition quadrantCoord :: "point \<Rightarrow> int \<Rightarrow> int \<Rightarrow> point" where
  "quadrantCoord coord i j =
     \<lparr>pt_x = js_shl (pt_x coord) 1 + i, pt_y = js_shl (pt_y coord) 1 + j\<rparr>"

definition quadrantRect :: "rect \<Rightarrow> int \<Rightarrow> int \<Rightarrow> rect" where
  "quadrantRect drect i j =
     \<lparr>rc_x = (if i \<noteq> 0 then rc_x drect + js_sar (rc_w drect) 1 else rc_x drect),
      rc_y = (if j \<noteq> 0 then rc_y drect + js_sar (rc_h drect) 1 else rc_y drect),
      rc_w = (if i \<noteq> 0 then rc_w drect - js_sar (rc_w drect) 1 else js_sar (rc_w drect) 1),
      rc_h = (if j \<noteq> 0 then rc_h drect - js_sar (rc_h drect) 1 else js_sar (rc_h drect) 1)\<rparr>"

definition drawImage :: "canvas \<Rightarrow> image \<Rightarrow> rect \<Rightarrow> canvas" where
  "drawImage cv img r =
     cv\<lparr>cv_draws := cv_draws cv @
          [\<lparr>dc_image = img, dc_x = rc_x r, dc_y = rc_y r, dc_w = rc_w r, dc_h = rc_h r\<rparr>]\<rparr>"

text \<open>
  The proxy search of one quadrant: \<open>proxy\<close> and \<open>nextBetterThan\<close>, which starts as the
  caller's \<open>proxyBetterThan\<close> and is replaced by the bound \<open>findNearestLod\<close> returns when the
  cell has a mipmap. (\<open>findNearestLod\<close> with a bound always returns a bound, so the last
  case is never taken.)
\<close>

definition proxyLookup :: "mipmap option \<Rightarrow> int \<Rightarrow> int \<Rightarrow> image option \<times> int" where
  "proxyLookup mipmap lod proxyBetterThan =
     (case mipmap of
        None \<Rightarrow> (None, proxyBetterThan)
      | Some m \<Rightarrow>
          (case findNearestLod m lod (Some proxyBetterThan) of
             (proxy, Some nextBetterThan) \<Rightarrow> (proxy, nextBetterThan)
           | (proxy, None) \<Rightarrow> (proxy, proxyBetterThan)))"

lemma nearest_visit_bound:
  "\<exists>d. snd (nearest_visit t e (bi, Some b)) = Some d \<and> d \<le> b"
  by (auto simp: nearest_visit_def js_ge_def Let_def split: option.splits if_splits)

lemma fold_nearest_visit_bound:
  "\<exists>d. snd (fold (nearest_visit t) es (bi, Some b)) = Some d \<and> d \<le> b"
proof (induction es arbitrary: bi b)
  case Nil
  then show ?case by simp
next
  case (Cons e es)
  obtain bi' d' where st: "nearest_visit t e (bi, Some b) = (bi', Some d')" and le: "d' \<le> b"
    using nearest_visit_bound [of t e bi b] by (cases "nearest_visit t e (bi, Some b)") auto
  from Cons.IH [of bi' d'] obtain d
    where "snd (fold (nearest_visit t) es (bi', Some d')) = Some d" "d \<le> d'"
    by blast
  with st le show ?case by auto
qed

lemma findNearestLod_bound:
  "\<exists>d. snd (findNearestLod m t (Some b)) = Some d \<and> d \<le> b"
  unfolding findNearestLod_def by (rule fold_nearest_visit_bound)

lemma proxyLookup_le: "snd (proxyLookup mm lod pbt) \<le> pbt"
proof (cases mm)
  case None
  then show ?thesis by (simp add: proxyLookup_def)
next
  case (Some m)
  then show ?thesis
    using findNearestLod_bound [of m lod pbt]
    by (auto simp: proxyLookup_def split: option.splits prod.splits)
qed

text \<open>
  \<open>compositeFromSmaller\<close> and the body of its loop over the four quadrants
  (\<open>j\<close> outer, \<open>i\<close> inner). The body takes and returns the canvas and the flag
  \<open>complete\<close>; the loop is unrolled into its four iterations.
\<close>

function compositeFromSmaller ::
    "cache \<Rightarrow> canvas \<Rightarrow> point \<Rightarrow> rect \<Rightarrow> int \<Rightarrow> int \<Rightarrow> int \<Rightarrow> canvas \<times> bool"
  and compositeQuadrant ::
    "cache \<Rightarrow> canvas \<times> bool \<Rightarrow> point \<Rightarrow> rect \<Rightarrow> int \<Rightarrow> int \<Rightarrow> int \<Rightarrow> int \<Rightarrow> int
      \<Rightarrow> canvas \<times> bool"
where
  "compositeFromSmaller ic cv coord drect zoom lod proxyBetterThan =
     (if lod + proxyBetterThan < 0 then (cv, False)
      else
        compositeQuadrant ic
          (compositeQuadrant ic
            (compositeQuadrant ic
              (compositeQuadrant ic (cv, True) coord drect zoom lod proxyBetterThan 0 0)
              coord drect zoom lod proxyBetterThan 0 1)
            coord drect zoom lod proxyBetterThan 1 0)
          coord drect zoom lod proxyBetterThan 1 1)"
| "compositeQuadrant ic st coord drect zoom lod proxyBetterThan j i =
     (let cc = quadrantCoord coord i j;
          cd = quadrantRect drect i j;
          mipmap = cache_mipmap ic zoom (pt_y cc) (pt_x cc)
      in case (case mipmap of None \<Rightarrow> None | Some m \<Rightarrow> mipmap_get m lod) of
           Some child \<Rightarrow> (drawImage (fst st) child cd, snd st)
         | None \<Rightarrow>
             (let found = proxyLookup mipmap lod proxyBetterThan;
                  sub = compositeFromSmaller ic
                          (case fst found of
                             None \<Rightarrow> fst st
                           | Some proxy \<Rightarrow> drawImage (fst st) proxy cd)
                          cc cd (zoom + 1) (lod - 1) (snd found)
              in (fst sub, if \<not> snd sub then False else snd st)))"
  by pat_completeness auto
termination compositeFromSmaller
proof (relation "measure (\<lambda>a. case a of
            Inl (ic, cv, coord, drect, zoom, lod, pbt) \<Rightarrow>
              (if lod + pbt < 0 then 0 else 2 * nat (lod + pbt + 1) + 2)
          | Inr (ic, st, coord, drect, zoom, lod, pbt, j, i) \<Rightarrow> 2 * nat (lod + pbt + 1) + 1)",
       goal_cases)
  case 1
  then show ?case by simp
next
  case (6 ic st coord drect zoom lod pbt j i cc cd mipmap found)
  have "snd found \<le> pbt"
    using 6 proxyLookup_le [of mipmap lod pbt] by simp
  then show ?case by (auto simp: nat_less_iff)
qed simp_all

declare compositeFromSmaller.simps [simp del] compositeQuadrant.simps [simp del]

definition tileFromSmaller ::
    "int \<Rightarrow> cache \<Rightarrow> int \<Rightarrow> point \<Rightarrow> int \<Rightarrow> int \<Rightarrow> canvas \<times> bool" where
  "tileFromSmaller ts ic zoom coord lod proxyBetterThan =
     (let canvas = createCanvas ts
      in compositeFromSmaller ic canvas coord
           \<lparr>rc_x = 0, rc_y = 0, rc_w = cv_width canvas, rc_h = cv_height canvas\<rparr>
           (zoom + 1) (lod - 1) proxyBetterThan)"

section \<open>The content assembler\<close>

text \<open>\<open>createElement("img")\<close> gives a new element; its \<open>src\<close> is \<open>getTileUrl(coord, zoom, lod)\<close>.\<close>

definition fetchTile :: "state \<Rightarrow> int \<Rightarrow> point \<Rightarrow> int \<Rightarrow> image \<times> state" where
  "fetchTile s zoom coord lod =
     (\<lparr>img_id = next_id s, img_coord = coord, img_zoom = zoom, img_lod = lod\<rparr>,
      s\<lparr>next_id := Suc (next_id s)\<rparr>)"

text \<open>
  \<open>[fromLarger]\<close> holds \<open>null\<close> when \<open>fromLarger\<close> is \<open>null\<close>. \<open>difference || maxOversample + 1\<close>
  takes the second operand when \<open>difference\<close> is \<open>undefined\<close> or 0.
  \<open>image.decode().then(...)\<close> leaves a pending fetch behind.
\<close>

definition createTileContent :: "state \<Rightarrow> point \<Rightarrow> int \<Rightarrow> int \<Rightarrow> layer list \<times> state" where
  "createTileContent s coord zoom lod =
     (let larger = tileFromLarger (tileSize s) (imageCache s) zoom coord lod;
          fromLarger = fst larger;
          difference = snd larger
      in if difference = Some 0
         then ([case fromLarger of None \<Rightarrow> NullLayer | Some c \<Rightarrow> CanvasLayer c], s)
         else
           (let smaller = tileFromSmaller (tileSize s) (imageCache s) zoom coord lod
                            (case difference of
                               None \<Rightarrow> maxOversample s + 1
                             | Some d \<Rightarrow> if d = 0 then maxOversample s + 1 else d);
                fromSmaller = fst smaller;
                complete = snd smaller
            in if complete then ([CanvasLayer fromSmaller], s)
               else
                 (let fetched = fetchTile s zoom coord lod;
                      img = fst fetched;
                      content = (case fromLarger of None \<Rightarrow> [] | Some c \<Rightarrow> [CanvasLayer c])
                                @ [CanvasLayer fromSmaller, ImageLayer img]
                  in (content,
                      (snd fetched)\<lparr>pending := pending (snd fetched) @
                         [\<lparr>f_image = img, f_zoom = zoom, f_coord = coord, f_lod = lod\<rparr>]\<rparr>))))"

definition getTileContent :: "state \<Rightarrow> point \<Rightarrow> int \<Rightarrow> layer list \<times> state" where
  "getTileContent s coord zoom =
     (let lod = max (min (levelOfDetail s - zoom) (maxOversample s)) 0
      in case cache_get (imageCache s) zoom (pt_y coord) (pt_x coord) lod of
           Some cached \<Rightarrow> ([ImageLayer cached], s)
         | None \<Rightarrow> createTileContent s coord zoom lod)"

section \<open>The active tiles and the decode completions\<close>

definition getTile :: "state \<Rightarrow> point \<Rightarrow> int \<Rightarrow> nat \<times> state" where
  "getTile s coord zoom =
     (let d = next_id s;
          r = getTileContent (s\<lparr>next_id := Suc d\<rparr>) coord zoom;
          s' = snd r
      in (d, s'\<lparr>divs := (divs s')(d \<mapsto> fst r),
                activeTiles := AList.update d (coord, zoom) (activeTiles s')\<rparr>))"

definition releaseTile :: "state \<Rightarrow> nat \<Rightarrow> state" where
  "releaseTile s tile = s\<lparr>activeTiles := AList.delete tile (activeTiles s)\<rparr>"

definition refreshTile :: "nat \<times> point \<times> int \<Rightarrow> state \<Rightarrow> state" where
  "refreshTile entry s =
     (let r = getTileContent s (fst (snd entry)) (snd (snd entry));
          s' = snd r
      in s'\<lparr>divs := (divs s')(fst entry \<mapsto> fst r)\<rparr>)"

definition refreshTiles :: "state \<Rightarrow> state" where
  "refreshTiles s = fold refreshTile (activeTiles s) s"

text \<open>
  The \<open>k\<close>-th pending decode is fulfilled: its callback stores the image in the cache.
  A rejected decode runs no callback.
\<close>

definition decodeResolved :: "state \<Rightarrow> nat \<Rightarrow> state" where
  "decodeResolved s k =
     (if k < length (pending s)
      then (let f = pending s ! k
            in s\<lparr>pending := take k (pending s) @ drop (Suc k) (pending s),
                 imageCache := cache_store (imageCache s) (f_zoom f) (pt_y (f_coord f))
                                 (pt_x (f_coord f)) (f_lod f) (f_image f)\<rparr>)
      else s)"

definition decodeRejected :: "state \<Rightarrow> nat \<Rightarrow> state" where
  "decodeRejected s k =
     (if k < length (pending s)
      then s\<lparr>pending := take k (pending s) @ drop (Suc k) (pending s)\<rparr>
      else s)"

datatype event =
    GetTile point int
  | ReleaseTile nat
  | RefreshTiles
  | DecodeResolved nat
  | DecodeRejected nat
  | SetLevelOfDetail int
  | SetMaxOversample int

fun step :: "state \<Rightarrow> event \<Rightarrow> state" where
  "step s (GetTile coord zoom) = snd (getTile s coord zoom)"
| "step s (ReleaseTile tile) = releaseTile s tile"
| "step s RefreshTiles = refreshTiles s"
| "step s (DecodeResolved k) = decodeResolved s k"
| "step s (DecodeRejected k) = decodeRejected s k"
| "step s (SetLevelOfDetail v) = s\<lparr>levelOfDetail := v\<rparr>"
| "step s (SetMaxOversample v) = s\<lparr>maxOversample := v\<rparr>"

definition run :: "state \<Rightarrow> event list \<Rightarrow> state" where
  "run s es = foldl step s es"

text \<open>A new map type: the options \<open>tileSize\<close>, \<open>levelOfDetail\<close> and \<open>maxOversample\<close>, an empty cache.\<close>

definition newWmsMapType :: "int \<Rightarrow> int \<Rightarrow> int \<Rightarrow> state" where
  "newWmsMapType ts lod mo =
     \<lparr>tileSize = ts, levelOfDetail = lod, maxOversample = mo, imageCache = Map.empty,
      activeTiles = [], pending = [], divs = Map.empty, next_id = 0\<rparr>"

section \<open>Properties of the mipmap search\<close>


lemma fold_nearest_visit_snoc:
  "fold (nearest_visit t) (enumerate 0 (es @ [e])) acc =
     nearest_visit t (length es, e) (fold (nearest_visit t) (enumerate 0 es) acc)"
  by (simp add: enumerate_append_eq)

text \<open>
  The specification of the search, stated on its own: \<open>r\<close> is the first populated entry of
  least difference among those that beat the bound, or nothing together with the bound.
\<close>

definition populated :: "mipmap \<Rightarrow> nat \<Rightarrow> image \<Rightarrow> bool" where
  "populated es i img = (i < length es \<and> es ! i = Some img)"

lemma populated_snoc:
  "populated (es @ [e]) j img = (populated es j img \<or> (j = length es \<and> e = Some img))"
  by (auto simp: populated_def nth_append less_Suc_eq)

definition nearest_spec :: "mipmap \<Rightarrow> int \<Rightarrow> int option \<Rightarrow> image option \<times> int option \<Rightarrow> bool" where
  "nearest_spec es t b r =
    (if \<exists>i img. populated es i img \<and> \<not> js_ge \<bar>int i - t\<bar> b
     then \<exists>i img. populated es i img \<and> r = (Some img, Some \<bar>int i - t\<bar>)
            \<and> \<not> js_ge \<bar>int i - t\<bar> b
            \<and> (\<forall>j img'. populated es j img' \<longrightarrow> \<bar>int i - t\<bar> \<le> \<bar>int j - t\<bar>)
            \<and> (\<forall>j img'. j < i \<longrightarrow> populated es j img' \<longrightarrow> \<bar>int i - t\<bar> < \<bar>int j - t\<bar>)
     else r = (None, b))"

lemma populated_hole: "populated (es @ [None]) j img = populated es j img"
  by (simp add: populated_snoc)

lemma nearest_spec_hole:
  "nearest_spec es t b r \<Longrightarrow> nearest_spec (es @ [None]) t b r"
  unfolding nearest_spec_def populated_hole .

lemma nearest_visit_hole: "nearest_visit t (n, None) r = r"
  by (simp add: nearest_visit_def)

lemma nearest_visit_entry:
  "nearest_visit t (n, Some img) r =
     (if js_ge \<bar>int n - t\<bar> (snd r) then r else (Some img, Some \<bar>int n - t\<bar>))"
  by (simp add: nearest_visit_def)

lemma nearest_spec_skip:
  assumes "nearest_spec es t b r" and ge: "js_ge \<bar>int (length es) - t\<bar> (snd r)"
  shows "nearest_spec (es @ [Some img]) t b r"
proof (cases "\<exists>i img. populated es i img \<and> \<not> js_ge \<bar>int i - t\<bar> b")
  case True
  with assms(1) obtain i im where i: "populated es i im" "r = (Some im, Some \<bar>int i - t\<bar>)"
      "\<not> js_ge \<bar>int i - t\<bar> b"
      "\<forall>j img'. populated es j img' \<longrightarrow> \<bar>int i - t\<bar> \<le> \<bar>int j - t\<bar>"
      "\<forall>j img'. j < i \<longrightarrow> populated es j img' \<longrightarrow> \<bar>int i - t\<bar> < \<bar>int j - t\<bar>"
    unfolding nearest_spec_def by auto
  from ge i(2) have le: "\<bar>int i - t\<bar> \<le> \<bar>int (length es) - t\<bar>"
    by (simp add: js_ge_def)
  have "\<exists>i img'. populated (es @ [Some img]) i img' \<and> \<not> js_ge \<bar>int i - t\<bar> b"
    using i(1,3) by (auto simp: populated_snoc)
  moreover have "populated (es @ [Some img]) i im \<and> r = (Some im, Some \<bar>int i - t\<bar>)
            \<and> \<not> js_ge \<bar>int i - t\<bar> b
            \<and> (\<forall>j img'. populated (es @ [Some img]) j img' \<longrightarrow> \<bar>int i - t\<bar> \<le> \<bar>int j - t\<bar>)
            \<and> (\<forall>j img'. j < i \<longrightarrow> populated (es @ [Some img]) j img' \<longrightarrow> \<bar>int i - t\<bar> < \<bar>int j - t\<bar>)"
  proof -
    have "i < length es" using i(1) by (simp add: populated_def)
    then show ?thesis using i le by (auto simp: populated_snoc)
  qed
  ultimately show ?thesis
    unfolding nearest_spec_def by (simp only: if_True) blast
next
  case False
  with assms(1) have r: "r = (None, b)"
    unfolding nearest_spec_def by simp
  with ge have "js_ge \<bar>int (length es) - t\<bar> b" by simp
  with False have "\<not> (\<exists>i img'. populated (es @ [Some img]) i img' \<and> \<not> js_ge \<bar>int i - t\<bar> b)"
    by (auto simp: populated_snoc)
  then show ?thesis
    unfolding nearest_spec_def using r by (simp only: if_False)
qed

lemma js_ge_trans: "\<not> js_ge d b \<Longrightarrow> d' \<le> d \<Longrightarrow> \<not> js_ge d' b"
  by (auto simp: js_ge_def split: option.splits)

lemma nearest_spec_take:
  assumes "nearest_spec es t b r" and lt: "\<not> js_ge \<bar>int (length es) - t\<bar> (snd r)"
  shows "nearest_spec (es @ [Some img]) t b (Some img, Some \<bar>int (length es) - t\<bar>)"
proof -
  let ?n = "length es"
  have el: "\<not> js_ge \<bar>int ?n - t\<bar> b \<and> (\<forall>j img'. populated es j img' \<longrightarrow> \<bar>int ?n - t\<bar> < \<bar>int j - t\<bar>)"
  proof (cases "\<exists>i img. populated es i img \<and> \<not> js_ge \<bar>int i - t\<bar> b")
    case True
    with assms(1) obtain i im where i: "populated es i im" "r = (Some im, Some \<bar>int i - t\<bar>)"
      "\<not> js_ge \<bar>int i - t\<bar> b"
      "\<forall>j img'. populated es j img' \<longrightarrow> \<bar>int i - t\<bar> \<le> \<bar>int j - t\<bar>"
      unfolding nearest_spec_def by auto
    from lt i(2) have less: "\<bar>int ?n - t\<bar> < \<bar>int i - t\<bar>"
      by (simp add: js_ge_def)
    then have "\<not> js_ge \<bar>int ?n - t\<bar> b"
      using js_ge_trans [OF i(3), of "\<bar>int ?n - t\<bar>"] by simp
    moreover have "\<forall>j img'. populated es j img' \<longrightarrow> \<bar>int ?n - t\<bar> < \<bar>int j - t\<bar>"
      using i(4) less by fastforce
    ultimately show ?thesis by simp
  next
    case False
    with assms(1) have r: "r = (None, b)"
      unfolding nearest_spec_def by simp
    with lt have nb: "\<not> js_ge \<bar>int ?n - t\<bar> b" by simp
    have "\<bar>int ?n - t\<bar> < \<bar>int j - t\<bar>" if "populated es j img'" for j img'
    proof (rule ccontr)
      assume "\<not> \<bar>int ?n - t\<bar> < \<bar>int j - t\<bar>"
      then have "\<not> js_ge \<bar>int j - t\<bar> b"
        using js_ge_trans [OF nb, of "\<bar>int j - t\<bar>"] by simp
      with that False show False by blast
    qed
    with nb show ?thesis by blast
  qed
  have pop: "populated (es @ [Some img]) ?n img"
    by (simp add: populated_snoc)
  have "\<exists>i img'. populated (es @ [Some img]) i img' \<and> \<not> js_ge \<bar>int i - t\<bar> b"
    using pop el by blast
  moreover have "populated (es @ [Some img]) ?n img
            \<and> (Some img, Some \<bar>int ?n - t\<bar>) = (Some img, Some \<bar>int ?n - t\<bar>)
            \<and> \<not> js_ge \<bar>int ?n - t\<bar> b
            \<and> (\<forall>j img'. populated (es @ [Some img]) j img' \<longrightarrow> \<bar>int ?n - t\<bar> \<le> \<bar>int j - t\<bar>)
            \<and> (\<forall>j img'. j < ?n \<longrightarrow> populated (es @ [Some img]) j img' \<longrightarrow> \<bar>int ?n - t\<bar> < \<bar>int j - t\<bar>)"
    using pop el by (auto simp: populated_snoc)
  ultimately show ?thesis
    unfolding nearest_spec_def by (simp only: if_True) blast
qed

lemma nearest_spec_fold:
  "nearest_spec es t b (fold (nearest_visit t) (enumerate 0 es) (None, b))"
proof (induction es rule: rev_induct)
  case Nil
  then show ?case by (simp add: nearest_spec_def populated_def)
next
  case (snoc e es)
  let ?r = "fold (nearest_visit t) (enumerate 0 es) (None, b)"
  show ?case
  proof (cases e)
    case None
    then show ?thesis
      unfolding fold_nearest_visit_snoc
      using nearest_spec_hole [OF snoc.IH]
      by (simp add: nearest_visit_hole)
  next
    case (Some img)
    show ?thesis
    proof (cases "js_ge \<bar>int (length es) - t\<bar> (snd ?r)")
      case True
      then show ?thesis
        unfolding fold_nearest_visit_snoc
        using nearest_spec_skip [OF snoc.IH True, of img] Some
        by (simp add: nearest_visit_entry)
    next
      case False
      then show ?thesis
        unfolding fold_nearest_visit_snoc
        using nearest_spec_take [OF snoc.IH False, of img] Some
        by (simp add: nearest_visit_entry)
    qed
  qed
qed

text \<open>
  C6. \<open>findNearestLod\<close> returns the populated entry whose difference \<open>|LOD - targetLod|\<close> is
  least among the entries whose difference is strictly below \<open>betterThan\<close> (all entries when
  \<open>betterThan\<close> is absent), the first such entry in ascending LOD order on a tie, together
  with that difference; when no entry qualifies it returns \<open>(undefined, betterThan)\<close>.
\<close>

theorem findNearestLod_nearest:
  "(if \<exists>i<length m. m ! i \<noteq> None \<and> (\<forall>bt. b = Some bt \<longrightarrow> \<bar>int i - t\<bar> < bt)
    then \<exists>i img. i < length m \<and> m ! i = Some img
           \<and> findNearestLod m t b = (Some img, Some \<bar>int i - t\<bar>)
           \<and> (\<forall>bt. b = Some bt \<longrightarrow> \<bar>int i - t\<bar> < bt)
           \<and> (\<forall>j<length m. m ! j \<noteq> None \<and> (\<forall>bt. b = Some bt \<longrightarrow> \<bar>int j - t\<bar> < bt)
                  \<longrightarrow> \<bar>int i - t\<bar> \<le> \<bar>int j - t\<bar>)
           \<and> (\<forall>j<i. m ! j \<noteq> None \<and> (\<forall>bt. b = Some bt \<longrightarrow> \<bar>int j - t\<bar> < bt)
                  \<longrightarrow> \<bar>int i - t\<bar> < \<bar>int j - t\<bar>)
    else findNearestLod m t b = (None, b))"
proof -
  have el: "(\<not> js_ge d b) = (\<forall>bt. b = Some bt \<longrightarrow> d < bt)" for d
    by (auto simp: js_ge_def split: option.splits)
  have spec: "nearest_spec m t b (findNearestLod m t b)"
    unfolding findNearestLod_def by (rule nearest_spec_fold)
  show ?thesis
  proof (cases "\<exists>i img. populated m i img \<and> \<not> js_ge \<bar>int i - t\<bar> b")
    case True
    with spec obtain i img where i: "populated m i img"
        "findNearestLod m t b = (Some img, Some \<bar>int i - t\<bar>)"
        "\<not> js_ge \<bar>int i - t\<bar> b"
        "\<forall>j img'. populated m j img' \<longrightarrow> \<bar>int i - t\<bar> \<le> \<bar>int j - t\<bar>"
        "\<forall>j img'. j < i \<longrightarrow> populated m j img' \<longrightarrow> \<bar>int i - t\<bar> < \<bar>int j - t\<bar>"
      unfolding nearest_spec_def by auto
    have c: "\<exists>i<length m. m ! i \<noteq> None \<and> (\<forall>bt. b = Some bt \<longrightarrow> \<bar>int i - t\<bar> < bt)"
      using True by (auto simp: populated_def el)
    have "i < length m \<and> m ! i = Some img
           \<and> findNearestLod m t b = (Some img, Some \<bar>int i - t\<bar>)
           \<and> (\<forall>bt. b = Some bt \<longrightarrow> \<bar>int i - t\<bar> < bt)
           \<and> (\<forall>j<length m. m ! j \<noteq> None \<and> (\<forall>bt. b = Some bt \<longrightarrow> \<bar>int j - t\<bar> < bt)
                  \<longrightarrow> \<bar>int i - t\<bar> \<le> \<bar>int j - t\<bar>)
           \<and> (\<forall>j<i. m ! j \<noteq> None \<and> (\<forall>bt. b = Some bt \<longrightarrow> \<bar>int j - t\<bar> < bt)
                  \<longrightarrow> \<bar>int i - t\<bar> < \<bar>int j - t\<bar>)"
      using i by (auto simp: populated_def el)
    with c show ?thesis by (simp only: if_True) blast
  next
    case False
    with spec have r: "findNearestLod m t b = (None, b)"
      unfolding nearest_spec_def by simp
    have "\<not> (\<exists>i<length m. m ! i \<noteq> None \<and> (\<forall>bt. b = Some bt \<longrightarrow> \<bar>int i - t\<bar> < bt))"
      using False by (auto simp: populated_def el)
    with r show ?thesis by (simp only: if_False)
  qed
qed

text \<open>The mipmap \<open>{0: imgA, 3: imgB}\<close> searched for LOD 2 gives \<open>imgB\<close> with difference 1.\<close>

theorem findNearestLod_nearest_witness:
  "findNearestLod
     [Some \<lparr>img_id = 0, img_coord = \<lparr>pt_x = 0, pt_y = 0\<rparr>, img_zoom = 0, img_lod = 0\<rparr>, None, None,
      Some \<lparr>img_id = 1, img_coord = \<lparr>pt_x = 0, pt_y = 0\<rparr>, img_zoom = 0, img_lod = 3\<rparr>] 2 None
   = (Some \<lparr>img_id = 1, img_coord = \<lparr>pt_x = 0, pt_y = 0\<rparr>, img_zoom = 0, img_lod = 3\<rparr>, Some 1)"
  using findNearestLod_nearest
     [of "[Some \<lparr>img_id = 0, img_coord = \<lparr>pt_x = 0, pt_y = 0\<rparr>, img_zoom = 0, img_lod = 0\<rparr>, None, None,
      Some \<lparr>img_id = 1, img_coord = \<lparr>pt_x = 0, pt_y = 0\<rparr>, img_zoom = 0, img_lod = 3\<rparr>]" None 2]
  by (auto simp: nth_Cons' less_Suc_eq numeral_eq_Suc split: if_splits)

section \<open>The quadrants of a destination rectangle\<close>


lemma sint_word_of_int_32:
  "- 2147483648 \<le> a \<Longrightarrow> a < 2147483648 \<Longrightarrow> sint (word_of_int a :: 32 word) = a"
  by (simp add: sint_sbintrunc' signed_take_bit_int_eq_self)

lemma js_sar_div:
  assumes "- 2147483648 \<le> a" "a < 2147483648" "0 \<le> n" "n < 32"
  shows "js_sar a n = a div 2 ^ nat n"
  using assms
  by (simp add: js_sar_def sint_signed_drop_bit_eq sint_word_of_int_32 drop_bit_eq_div)











section \<open>The crop taken from a larger tile\<close>


lemma js_sar_0: "- 2147483648 \<le> a \<Longrightarrow> a < 2147483648 \<Longrightarrow> js_sar a 0 = a"
  using js_sar_div [of a 0] by simp

lemma js_shl_mult:
  assumes "0 \<le> n" "n < 32" "- 2147483648 \<le> a * 2 ^ nat n" "a * 2 ^ nat n < 2147483648"
  shows "js_shl a n = a * 2 ^ nat n"
proof -
  have "push_bit (nat n) (word_of_int a :: 32 word) = word_of_int (a * 2 ^ nat n)"
    by (simp add: push_bit_eq_mult)
  moreover have "sint (word_of_int (a * 2 ^ nat n) :: 32 word) = a * 2 ^ nat n"
    using assms by (intro sint_word_of_int_32) auto
  ultimately show ?thesis
    using assms by (simp only: js_shl_def) (simp add: nat_mod_distrib)
qed

lemma js_shl_sar:
  assumes "0 \<le> n" "n < 32" "- 2147483648 \<le> a" "a < 2147483648"
  shows "js_shl (js_sar a n) n = a - a mod 2 ^ nat n"
proof -
  let ?p = "(2::int) ^ nat n"
  have p: "0 < ?p" by simp
  have eq: "(a div ?p) * ?p = a - a mod ?p"
    by (simp add: minus_mod_eq_div_mult)
  have le: "a - a mod ?p \<le> a"
    using p by simp
  have dvd: "?p dvd 2147483648"
  proof -
    have "nat n \<le> 31" using assms by simp
    then have "(2::int) ^ nat n dvd 2 ^ 31" by (rule le_imp_power_dvd)
    then show ?thesis by simp
  qed
  have ge: "- 2147483648 \<le> a - a mod ?p"
  proof -
    from dvd obtain k where k: "(2147483648::int) = ?p * k" by (auto simp: dvd_def)
    have "- k \<le> a div ?p"
    proof -
      have "(- k) * ?p \<le> a" using assms(3) k by (simp add: mult.commute)
      then have "((- k) * ?p) div ?p \<le> a div ?p" using p by (intro zdiv_mono1) auto
      moreover have "((- k) * ?p) div ?p = - k" by (rule nonzero_mult_div_cancel_right) simp
      ultimately show ?thesis by (simp only:)
    qed
    then have "(- k) * ?p \<le> (a div ?p) * ?p"
      using p by (simp only: mult_le_cancel_right) simp
    then show ?thesis using k eq by (simp add: mult.commute)
  qed
  have "js_sar a n = a div ?p"
    using assms by (rule_tac js_sar_div) auto
  moreover have "js_shl (a div ?p) n = (a div ?p) * ?p"
  proof (rule js_shl_mult)
    show "0 \<le> n" "n < 32" by (fact assms)+
    show "- 2147483648 \<le> a div ?p * ?p" using ge eq by simp
    have "a - a mod ?p < 2147483648" using le assms(4) by linarith
    then show "a div ?p * ?p < 2147483648" using eq by simp
  qed
  ultimately show ?thesis using eq by simp
qed

lemma findNearestLod_populated:
  assumes "fst (findNearestLod m t b) = Some img"
  shows "\<exists>i<length m. m ! i = Some img"
proof -
  have "nearest_spec m t b (findNearestLod m t b)"
    unfolding findNearestLod_def by (rule nearest_spec_fold)
  with assms show ?thesis
    unfolding nearest_spec_def populated_def by (auto split: if_splits)
qed

text \<open>What holds of every candidate the ancestor walk selects.\<close>

definition larger_inv :: "cache \<Rightarrow> int \<Rightarrow> point \<Rightarrow> larger \<Rightarrow> bool" where
  "larger_inv ic zoom coord b =
     (0 \<le> lg_levelsAbove b \<and> lg_levelsAbove b \<le> zoom
      \<and> lg_x b = js_sar (pt_x coord) (lg_levelsAbove b)
      \<and> lg_y b = js_sar (pt_y coord) (lg_levelsAbove b)
      \<and> (\<exists>l. cache_get ic (zoom - lg_levelsAbove b) (lg_y b) (lg_x b) l = Some (lg_image b)))"

lemma tileFromLarger_loop_inv:
  assumes "0 \<le> levelsAbove"
    and "\<And>b0. best = Some b0 \<Longrightarrow> larger_inv ic zoom coord b0"
    and "fst (tileFromLarger_loop ic zoom coord lod levelsAbove best bestDifference) = Some b"
  shows "larger_inv ic zoom coord b"
  using assms
proof (induction ic zoom coord lod levelsAbove best bestDifference
       rule: tileFromLarger_loop.induct)
  case (1 ic zoom coord lod levelsAbove best bestDifference)
  let ?mz = "zoom - levelsAbove"
  let ?mc = "\<lparr>pt_x = js_sar (pt_x coord) levelsAbove, pt_y = js_sar (pt_y coord) levelsAbove\<rparr>"
  show ?case
  proof (cases "0 \<le> ?mz")
    case False
    with "1.prems"(3) have "best = Some b"
      by (simp add: tileFromLarger_loop.simps [of ic zoom coord lod levelsAbove])
    then show ?thesis by (rule "1.prems"(2))
  next
    case True
    show ?thesis
    proof (cases "cache_mipmap ic ?mz (pt_y ?mc) (pt_x ?mc)")
      case None
      with True "1.prems"(3)
      have r: "fst (tileFromLarger_loop ic zoom coord lod (levelsAbove + 1) best bestDifference) = Some b"
        by (simp add: tileFromLarger_loop.simps [of ic zoom coord lod levelsAbove])
      show ?thesis
        using "1.IH"(1) [OF refl True refl None _ "1.prems"(2) r] "1.prems"(1) by simp
    next
      case (Some mipmap)
      let ?found = "findNearestLod mipmap (lod + levelsAbove) bestDifference"
      let ?best' = "case fst ?found of None \<Rightarrow> best
                    | Some candidate \<Rightarrow> Some \<lparr>lg_image = candidate, lg_x = pt_x ?mc,
                                    lg_y = pt_y ?mc, lg_levelsAbove = levelsAbove\<rparr>"
      from Some True "1.prems"(3)
      have r: "fst (tileFromLarger_loop ic zoom coord lod (levelsAbove + 1) ?best' (snd ?found)) = Some b"
        by (simp add: tileFromLarger_loop.simps [of ic zoom coord lod levelsAbove] Let_def)
      have inv: "larger_inv ic zoom coord b0" if "?best' = Some b0" for b0
      proof (cases "fst ?found")
        case None
        with that have "best = Some b0" by simp
        then show ?thesis by (rule "1.prems"(2))
      next
        case (Some candidate)
        with that have b0: "b0 = \<lparr>lg_image = candidate, lg_x = pt_x ?mc,
                                    lg_y = pt_y ?mc, lg_levelsAbove = levelsAbove\<rparr>" by simp
        from findNearestLod_populated [OF Some] obtain i where
          i: "i < length mipmap" "mipmap ! i = Some candidate" by blast
        have "cache_get ic ?mz (pt_y ?mc) (pt_x ?mc) (int i) = Some candidate"
          using \<open>cache_mipmap ic ?mz (pt_y ?mc) (pt_x ?mc) = Some mipmap\<close> i
          by (simp add: cache_get_def mipmap_get_def)
        then show ?thesis
          using b0 True "1.prems"(1) unfolding larger_inv_def by auto
      qed
      show ?thesis
        using "1.IH"(2) [OF refl True refl Some refl _ inv r] "1.prems"(1) by simp
    qed
  qed
qed

lemma crop_window:
  assumes ts: "0 < ts" "ts * 2 ^ nat la < 2147483648" and la: "0 \<le> la"
    and x: "- 2147483648 \<le> x" "x < 2147483648"
  shows "js_shl ts la = ts * 2 ^ nat la"
    and "(js_shl (js_sar x la) la - x) * ts = - (x mod 2 ^ nat la) * ts"
    and "0 \<le> (x mod 2 ^ nat la) * ts"
    and "(x mod 2 ^ nat la) * ts + ts \<le> ts * 2 ^ nat la"
proof -
  let ?p = "(2::int) ^ nat la"
  have "?p * 1 \<le> ?p * ts" using ts(1) by (intro mult_left_mono) auto
  then have "?p \<le> ts * ?p" by (simp add: mult.commute)
  then have "?p < 2147483648" using ts(2) by linarith
  then have "?p < 2 ^ 31" by simp
  then have "nat la < 31" by (rule power_less_imp_less_exp [of "2::int", rotated]) simp
  then have la32: "la < 32" by simp
  have "0 \<le> ts * ?p" using ts(1) by simp
  then have "- 2147483648 \<le> ts * ?p" by linarith
  then show "js_shl ts la = ts * ?p"
    using ts la la32 by (intro js_shl_mult) auto
  show "(js_shl (js_sar x la) la - x) * ts = - (x mod ?p) * ts"
    using js_shl_sar [OF la la32 x] by simp
  show "0 \<le> (x mod ?p) * ts" using ts(1) by simp
  have "x mod ?p < ?p" by (rule pos_mod_bound) simp
  then have "x mod ?p + 1 \<le> ?p" by linarith
  then have "(x mod ?p + 1) * ts \<le> ?p * ts" using ts(1) by (intro mult_right_mono) auto
  then show "(x mod ?p) * ts + ts \<le> ts * ?p" by (simp add: algebra_simps)
qed

text \<open>
  C7 (amended). The candidate \<open>tileFromLarger\<close> selects lies \<open>levelsAbove\<close> levels above the
  requested zoom with \<open>0 \<le> levelsAbove \<le> zoom\<close>, at the cell \<open>coord >> levelsAbove\<close>, and is an
  image the cache holds there. It is drawn at the offset
  \<open>((ancestorCoord << levelsAbove) - coord) * tileSize\<close> with the size \<open>tileSize << levelsAbove\<close>.
  When the coordinates are 32-bit integers, \<open>tileSize\<close> is positive and
  \<open>tileSize * 2^levelsAbove < 2^31\<close>, the output surface is \<open>tileSize\<close> wide and high, the
  size is \<open>tileSize * 2^levelsAbove\<close>, the offset is
  \<open>-(coord mod 2^levelsAbove) * tileSize\<close>, which is not positive, and the tile-sized window
  \<open>[-offset, -offset + tileSize)\<close> of the scaled ancestor that lands on the output surface lies
  within \<open>[0, tileSize << levelsAbove)\<close> in both axes.
\<close>

theorem tileFromLarger_crop:
  assumes "fst (tileFromLarger_loop ic zoom coord lod 0 None None) = Some best"
  shows "0 \<le> lg_levelsAbove best \<and> lg_levelsAbove best \<le> zoom
       \<and> lg_x best = js_sar (pt_x coord) (lg_levelsAbove best)
       \<and> lg_y best = js_sar (pt_y coord) (lg_levelsAbove best)
       \<and> (\<exists>l. cache_get ic (zoom - lg_levelsAbove best) (lg_y best) (lg_x best) l
                 = Some (lg_image best))
       \<and> fst (tileFromLarger ts ic zoom coord lod) =
           Some ((createCanvas ts)
                 \<lparr>cv_draws := [\<lparr>dc_image = lg_image best,
                   dc_x = (js_shl (lg_x best) (lg_levelsAbove best) - pt_x coord) * ts,
                   dc_y = (js_shl (lg_y best) (lg_levelsAbove best) - pt_y coord) * ts,
                   dc_w = js_shl ts (lg_levelsAbove best),
                   dc_h = js_shl ts (lg_levelsAbove best)\<rparr>]\<rparr>)
       \<and> (0 < ts \<and> ts * 2 ^ nat (lg_levelsAbove best) < 2147483648
            \<and> - 2147483648 \<le> pt_x coord \<and> pt_x coord < 2147483648
            \<and> - 2147483648 \<le> pt_y coord \<and> pt_y coord < 2147483648
          \<longrightarrow> createCanvas ts = \<lparr>cv_width = ts, cv_height = ts, cv_draws = []\<rparr>
            \<and> js_shl ts (lg_levelsAbove best) = ts * 2 ^ nat (lg_levelsAbove best)
            \<and> (js_shl (lg_x best) (lg_levelsAbove best) - pt_x coord) * ts
                 = - (pt_x coord mod 2 ^ nat (lg_levelsAbove best)) * ts
            \<and> (js_shl (lg_y best) (lg_levelsAbove best) - pt_y coord) * ts
                 = - (pt_y coord mod 2 ^ nat (lg_levelsAbove best)) * ts
            \<and> 0 \<le> - ((js_shl (lg_x best) (lg_levelsAbove best) - pt_x coord) * ts)
            \<and> - ((js_shl (lg_x best) (lg_levelsAbove best) - pt_x coord) * ts) + ts
                 \<le> js_shl ts (lg_levelsAbove best)
            \<and> 0 \<le> - ((js_shl (lg_y best) (lg_levelsAbove best) - pt_y coord) * ts)
            \<and> - ((js_shl (lg_y best) (lg_levelsAbove best) - pt_y coord) * ts) + ts
                 \<le> js_shl ts (lg_levelsAbove best))"
proof -
  have inv: "larger_inv ic zoom coord best"
    using tileFromLarger_loop_inv [of 0 None ic zoom coord lod None best] assms by simp
  have cv: "fst (tileFromLarger ts ic zoom coord lod) =
           Some ((createCanvas ts)
                 \<lparr>cv_draws := [\<lparr>dc_image = lg_image best,
                   dc_x = (js_shl (lg_x best) (lg_levelsAbove best) - pt_x coord) * ts,
                   dc_y = (js_shl (lg_y best) (lg_levelsAbove best) - pt_y coord) * ts,
                   dc_w = js_shl ts (lg_levelsAbove best),
                   dc_h = js_shl ts (lg_levelsAbove best)\<rparr>]\<rparr>)"
    using assms
    by (cases "tileFromLarger_loop ic zoom coord lod 0 None None")
       (simp add: tileFromLarger_def Let_def)
  have geo: "createCanvas ts = \<lparr>cv_width = ts, cv_height = ts, cv_draws = []\<rparr>
            \<and> js_shl ts (lg_levelsAbove best) = ts * 2 ^ nat (lg_levelsAbove best)
            \<and> (js_shl (lg_x best) (lg_levelsAbove best) - pt_x coord) * ts
                 = - (pt_x coord mod 2 ^ nat (lg_levelsAbove best)) * ts
            \<and> (js_shl (lg_y best) (lg_levelsAbove best) - pt_y coord) * ts
                 = - (pt_y coord mod 2 ^ nat (lg_levelsAbove best)) * ts
            \<and> 0 \<le> - ((js_shl (lg_x best) (lg_levelsAbove best) - pt_x coord) * ts)
            \<and> - ((js_shl (lg_x best) (lg_levelsAbove best) - pt_x coord) * ts) + ts
                 \<le> js_shl ts (lg_levelsAbove best)
            \<and> 0 \<le> - ((js_shl (lg_y best) (lg_levelsAbove best) - pt_y coord) * ts)
            \<and> - ((js_shl (lg_y best) (lg_levelsAbove best) - pt_y coord) * ts) + ts
                 \<le> js_shl ts (lg_levelsAbove best)"
    if r: "0 < ts" "ts * 2 ^ nat (lg_levelsAbove best) < 2147483648"
       "- 2147483648 \<le> pt_x coord" "pt_x coord < 2147483648"
       "- 2147483648 \<le> pt_y coord" "pt_y coord < 2147483648"
  proof -
    have la: "0 \<le> lg_levelsAbove best" using inv by (simp add: larger_inv_def)
    note wx = crop_window [OF r(1,2) la r(3,4)]
    note wy = crop_window [OF r(1,2) la r(5,6)]
    have lx: "lg_x best = js_sar (pt_x coord) (lg_levelsAbove best)"
      and ly: "lg_y best = js_sar (pt_y coord) (lg_levelsAbove best)"
      using inv by (simp_all add: larger_inv_def)
    have le: "ts * 1 \<le> ts * 2 ^ nat (lg_levelsAbove best)"
      using r(1) by (intro mult_left_mono) auto
    have "0 \<le> ts" "ts < 2147483648"
      using r(1) order_le_less_trans [OF le r(2)] by simp_all
    then have cc: "createCanvas ts = \<lparr>cv_width = ts, cv_height = ts, cv_draws = []\<rparr>"
      by (rule createCanvas_in_range)
    show ?thesis
      unfolding lx ly wx(1) wx(2) wy(2) cc
      using wx(3,4) wy(3,4) by simp
  qed
  show ?thesis
    using inv cv geo unfolding larger_inv_def by blast
qed


lemma tileFromLarger_loop_two_above:
  "tileFromLarger_loop
      (cache_store Map.empty 2 0 0 2
         \<lparr>img_id = 0, img_coord = \<lparr>pt_x = 0, pt_y = 0\<rparr>, img_zoom = 2, img_lod = 2\<rparr>)
      4 \<lparr>pt_x = 1, pt_y = 1\<rparr> 0 0 None None
   = (Some \<lparr>lg_image = \<lparr>img_id = 0, img_coord = \<lparr>pt_x = 0, pt_y = 0\<rparr>, img_zoom = 2, img_lod = 2\<rparr>,
             lg_x = 0, lg_y = 0, lg_levelsAbove = 2\<rparr>, Some 0)"
  by (simp add: tileFromLarger_loop.simps cache_store_def mipmap_set_def cache_mipmap_def
        js_sar_def findNearestLod_def nearest_visit_def js_ge_def Let_def numeral_eq_Suc)

lemma tileFromLarger_root_ancestor:
  "tileFromLarger 512
      (cache_store Map.empty 0 0 0 0
         \<lparr>img_id = 0, img_coord = \<lparr>pt_x = 0, pt_y = 0\<rparr>, img_zoom = 0, img_lod = 0\<rparr>)
      22 \<lparr>pt_x = 0, pt_y = 0\<rparr> 0
   = (Some \<lparr>cv_width = 512, cv_height = 512,
        cv_draws = [\<lparr>dc_image = \<lparr>img_id = 0, img_coord = \<lparr>pt_x = 0, pt_y = 0\<rparr>, img_zoom = 0, img_lod = 0\<rparr>,
           dc_x = 0, dc_y = 0, dc_w = - 2147483648, dc_h = - 2147483648\<rparr>]\<rparr>, Some 22)"
  by (simp add: tileFromLarger_def tileFromLarger_loop.simps cache_store_def mipmap_set_def cache_mipmap_def
        js_sar_def js_shl_def findNearestLod_def nearest_visit_def js_ge_def Let_def
        createCanvas_in_range)

text \<open>
  A cached ancestor at \<open>(zoom 2, y 0, x 0, lod 2)\<close> for the target \<open>(zoom 4, y 1, x 1)\<close>, tile
  size 256: two levels above, drawn at \<open>(-256, -256)\<close> with size 1024.
\<close>

theorem tileFromLarger_crop_witness:
  "fst (tileFromLarger 256
      (cache_store Map.empty 2 0 0 2
         \<lparr>img_id = 0, img_coord = \<lparr>pt_x = 0, pt_y = 0\<rparr>, img_zoom = 2, img_lod = 2\<rparr>)
      4 \<lparr>pt_x = 1, pt_y = 1\<rparr> 0)
   = Some \<lparr>cv_width = 256, cv_height = 256,
        cv_draws = [\<lparr>dc_image = \<lparr>img_id = 0, img_coord = \<lparr>pt_x = 0, pt_y = 0\<rparr>, img_zoom = 2, img_lod = 2\<rparr>,
           dc_x = - 256, dc_y = - 256, dc_w = 1024, dc_h = 1024\<rparr>]\<rparr>
   \<and> js_shl 256 2 = 1024 \<and> (js_shl 0 2 - 1) * 256 = - 256
   \<and> (0::int) \<le> - (- 256) \<and> - (- 256) + 256 \<le> (1024::int)"
  using tileFromLarger_crop [OF tileFromLarger_loop_two_above [THEN arg_cong [where f = fst], simplified], of 256]
  by (simp add: createCanvas_in_range)

text \<open>
  C7 as stated fails where the shift overflows: with tile size 512, the root tile cached and
  a request at zoom 22, the candidate is 22 levels above and \<open>512 << 22\<close> is \<open>-2^31\<close>, so
  no window lies within \<open>[0, tileSize << levelsAbove)\<close>.
\<close>

theorem tileFromLarger_crop_counterexample:
  "tileFromLarger 512
      (cache_store Map.empty 0 0 0 0
         \<lparr>img_id = 0, img_coord = \<lparr>pt_x = 0, pt_y = 0\<rparr>, img_zoom = 0, img_lod = 0\<rparr>)
      22 \<lparr>pt_x = 0, pt_y = 0\<rparr> 0
   = (Some \<lparr>cv_width = 512, cv_height = 512,
        cv_draws = [\<lparr>dc_image = \<lparr>img_id = 0, img_coord = \<lparr>pt_x = 0, pt_y = 0\<rparr>, img_zoom = 0, img_lod = 0\<rparr>,
           dc_x = 0, dc_y = 0, dc_w = - 2147483648, dc_h = - 2147483648\<rparr>]\<rparr>, Some 22)
   \<and> js_shl 512 22 = - 2147483648
   \<and> ((js_shl (js_sar 0 22) 22 - 0) * 512 = 0)
   \<and> \<not> (0 \<le> - ((js_shl (js_sar 0 22) 22 - 0) * 512)
         \<and> - ((js_shl (js_sar 0 22) 22 - 0) * 512) + 512 \<le> js_shl 512 22)
   \<and> \<not> (0 \<le> (js_shl (js_sar 0 22) 22 - 0) * 512
         \<and> (js_shl (js_sar 0 22) 22 - 0) * 512 < js_shl 512 22)"
  using tileFromLarger_root_ancestor by (simp add: js_shl_def js_sar_def)

section \<open>Reading the cache after a store\<close>


lemma cache_mipmap_empty [simp]: "cache_mipmap Map.empty zoom y x = None"
  by (simp add: cache_mipmap_def)

lemma cache_get_empty [simp]: "cache_get Map.empty zoom y x lod = None"
  by (simp add: cache_get_def)

lemma cache_mipmap_store:
  "cache_mipmap (cache_store ic zoom y x lod img) zoom' y' x' =
     (if zoom' = zoom \<and> y' = y \<and> x' = x
      then Some (mipmap_set (case cache_mipmap ic zoom y x of None \<Rightarrow> [] | Some m \<Rightarrow> m)
                   (nat lod) img)
      else cache_mipmap ic zoom' y' x')"
  by (auto simp: cache_mipmap_def cache_store_def Let_def split: option.splits)

lemma mipmap_get_set:
  "mipmap_get (mipmap_set m n img) lod = (if lod = int n then Some img else mipmap_get m lod)"
  by (auto simp: mipmap_get_def mipmap_set_def nth_append nth_list_update)

lemma mipmap_get_Nil [simp]: "mipmap_get [] lod = None"
  by (simp add: mipmap_get_def)

lemma cache_get_store:
  "cache_get (cache_store ic zoom y x lod img) zoom' y' x' lod' =
     (if zoom' = zoom \<and> y' = y \<and> x' = x \<and> lod' = int (nat lod) then Some img
      else cache_get ic zoom' y' x' lod')"
  by (auto simp: cache_get_def cache_mipmap_store mipmap_get_set split: option.splits)

section \<open>Completeness of the composite\<close>


text \<open>The loop body on an exact hit and on a miss.\<close>

lemma compositeQuadrant_hit:
  assumes "cache_get ic zoom (pt_y (quadrantCoord coord i j)) (pt_x (quadrantCoord coord i j)) lod
             = Some child"
  shows "compositeQuadrant ic st coord drect zoom lod pbt j i
           = (drawImage (fst st) child (quadrantRect drect i j), snd st)"
  using assms by (simp add: compositeQuadrant.simps cache_get_def Let_def)

lemma compositeQuadrant_miss:
  assumes "cache_get ic zoom (pt_y (quadrantCoord coord i j)) (pt_x (quadrantCoord coord i j)) lod
             = None"
  shows "compositeQuadrant ic st coord drect zoom lod pbt j i
           = (let cc = quadrantCoord coord i j;
                  cd = quadrantRect drect i j;
                  found = proxyLookup (cache_mipmap ic zoom (pt_y cc) (pt_x cc)) lod pbt;
                  sub = compositeFromSmaller ic
                          (case fst found of
                             None \<Rightarrow> fst st
                           | Some proxy \<Rightarrow> drawImage (fst st) proxy cd)
                          cc cd (zoom + 1) (lod - 1) (snd found)
              in (fst sub, snd sub \<and> snd st))"
  using assms by (simp add: compositeQuadrant.simps cache_get_def Let_def)

text \<open>The flag \<open>complete\<close> depends neither on the canvas nor on the destination rectangle.\<close>

lemma complete_independent:
  "snd (compositeFromSmaller ic cv coord drect zoom lod pbt)
     = snd (compositeFromSmaller ic cv' coord drect' zoom lod pbt)"
  and complete_independent_quadrant: "snd st' = snd st \<Longrightarrow>
       snd (compositeQuadrant ic st coord drect zoom lod pbt j i)
     = snd (compositeQuadrant ic st' coord drect' zoom lod pbt j i)"
proof (induction ic cv coord drect zoom lod pbt and ic st coord drect zoom lod pbt j i
       arbitrary: cv' drect' and st' drect'
       rule: compositeFromSmaller_compositeQuadrant.induct)
  case (1 ic cv coord drect zoom lod pbt)
  show ?case
  proof (cases "lod + pbt < 0")
    case True
    then show ?thesis by (simp add: compositeFromSmaller.simps)
  next
    case False
    let ?a = "compositeQuadrant ic (cv, True) coord drect zoom lod pbt 0 0"
    let ?a' = "compositeQuadrant ic (cv', True) coord drect' zoom lod pbt 0 0"
    let ?b = "compositeQuadrant ic ?a coord drect zoom lod pbt 0 1"
    let ?b' = "compositeQuadrant ic ?a' coord drect' zoom lod pbt 0 1"
    let ?c = "compositeQuadrant ic ?b coord drect zoom lod pbt 1 0"
    let ?c' = "compositeQuadrant ic ?b' coord drect' zoom lod pbt 1 0"
    have a: "snd ?a = snd ?a'" by (rule "1.IH"(1) [OF False]) simp
    have b: "snd ?b = snd ?b'" by (rule "1.IH"(2) [OF False]) (simp add: a)
    have c: "snd ?c = snd ?c'" by (rule "1.IH"(3) [OF False]) (simp add: b)
    have "snd (compositeQuadrant ic ?c coord drect zoom lod pbt 1 1)
        = snd (compositeQuadrant ic ?c' coord drect' zoom lod pbt 1 1)"
      by (rule "1.IH"(4) [OF False]) (simp add: c)
    with False show ?thesis by (simp add: compositeFromSmaller.simps)
  qed
next
  case (2 ic st coord drect zoom lod pbt j i)
  let ?cc = "quadrantCoord coord i j"
  show ?case
  proof (cases "cache_get ic zoom (pt_y ?cc) (pt_x ?cc) lod")
    case (Some child)
    then show ?thesis using "2.prems" by (simp add: compositeQuadrant_hit)
  next
    case None
    let ?mm = "cache_mipmap ic zoom (pt_y ?cc) (pt_x ?cc)"
    have n: "(case ?mm of None \<Rightarrow> None | Some m \<Rightarrow> mipmap_get m lod) = None"
      using None by (simp add: cache_get_def)
    let ?found = "proxyLookup ?mm lod pbt"
    have "snd (compositeFromSmaller ic
                 (case fst ?found of None \<Rightarrow> fst st
                  | Some proxy \<Rightarrow> drawImage (fst st) proxy (quadrantRect drect i j))
                 ?cc (quadrantRect drect i j) (zoom + 1) (lod - 1) (snd ?found))
        = snd (compositeFromSmaller ic
                 (case fst ?found of None \<Rightarrow> fst st'
                  | Some proxy \<Rightarrow> drawImage (fst st') proxy (quadrantRect drect' i j))
                 ?cc (quadrantRect drect' i j) (zoom + 1) (lod - 1) (snd ?found))"
      by (rule "2.IH" [OF refl refl refl n refl])
    then show ?thesis
      using "2.prems"
      by (simp add: compositeQuadrant_miss [OF None] Let_def)
  qed
qed

lemma compositeQuadrant_complete:
  "snd (compositeQuadrant ic st coord drect zoom lod pbt j i) =
     (snd st \<and>
      (cache_get ic zoom (pt_y (quadrantCoord coord i j)) (pt_x (quadrantCoord coord i j)) lod \<noteq> None
       \<or> snd (compositeFromSmaller ic cv' (quadrantCoord coord i j) drect' (zoom + 1) (lod - 1)
               (snd (proxyLookup (cache_mipmap ic zoom (pt_y (quadrantCoord coord i j))
                                    (pt_x (quadrantCoord coord i j))) lod pbt)))))"
proof (cases "cache_get ic zoom (pt_y (quadrantCoord coord i j)) (pt_x (quadrantCoord coord i j)) lod")
  case None
  show ?thesis
    unfolding compositeQuadrant_miss [OF None] Let_def
    using complete_independent [of ic _ "quadrantCoord coord i j" _ "zoom + 1" "lod - 1" _ cv' drect']
    by (auto simp: None)
next
  case (Some child)
  then show ?thesis by (simp add: compositeQuadrant_hit)
qed

lemma compositeFromSmaller_no_exact:
  "(\<forall>k y x. cache_get ic (zoom + int k) y x (lod - int k) = None)
     \<Longrightarrow> \<not> snd (compositeFromSmaller ic cv coord drect zoom lod pbt)"
  and compositeQuadrant_no_exact:
    "(\<forall>k y x. cache_get ic (zoom + int k) y x (lod - int k) = None)
     \<Longrightarrow> \<not> snd (compositeQuadrant ic st coord drect zoom lod pbt j i)"
proof (induction ic cv coord drect zoom lod pbt and ic st coord drect zoom lod pbt j i
       rule: compositeFromSmaller_compositeQuadrant.induct)
  case (1 ic cv coord drect zoom lod pbt)
  show ?case
  proof (cases "lod + pbt < 0")
    case True
    then show ?thesis by (simp add: compositeFromSmaller.simps)
  next
    case False
    then show ?thesis
      using "1.IH"(4) [OF False "1.prems"] by (simp add: compositeFromSmaller.simps)
  qed
next
  case (2 ic st coord drect zoom lod pbt j i)
  let ?cc = "quadrantCoord coord i j"
  have None: "cache_get ic zoom (pt_y ?cc) (pt_x ?cc) lod = None"
    using "2.prems" [rule_format, of 0] by simp
  have n: "(case cache_mipmap ic zoom (pt_y ?cc) (pt_x ?cc) of None \<Rightarrow> None
            | Some m \<Rightarrow> mipmap_get m lod) = None"
    using None by (simp add: cache_get_def)
  have deeper: "\<forall>k y x. cache_get ic (zoom + 1 + int k) y x (lod - 1 - int k) = None"
  proof (intro allI)
    fix k y x
    show "cache_get ic (zoom + 1 + int k) y x (lod - 1 - int k) = None"
      using "2.prems" [rule_format, of "Suc k" y x] by (simp add: algebra_simps)
  qed
  show ?case
    unfolding compositeQuadrant_miss [OF None] Let_def
    using "2.IH" [OF refl refl refl n refl deeper] by simp
qed

text \<open>
  C4 (amended). \<open>compositeFromSmaller\<close> returns \<open>complete = true\<close> exactly when
  \<open>lod + proxyBetterThan \<ge> 0\<close> and each of the four quadrants either holds an exact cache
  entry at its own \<open>(zoom, cell, lod)\<close> or has a complete composite one level deeper
  (\<open>zoom + 1\<close>, \<open>lod - 1\<close>, the bound its own proxy search returned): the result is the
  conjunction of the four quadrants' outcomes, and the outcome of a quadrant without an exact
  entry is that of its recursion, whether or not a proxy was drawn. A cache with no entry of
  LOD \<open>lod - k\<close> at any cell of zoom \<open>zoom + k\<close>, for every \<open>k \<ge> 0\<close>, always
  gives \<open>complete = false\<close>.
\<close>

theorem compositeFromSmaller_complete:
  "snd (compositeFromSmaller ic cv coord drect zoom lod pbt) =
     (0 \<le> lod + pbt \<and>
      (\<forall>j\<in>{0, 1}. \<forall>i\<in>{0, 1}.
         cache_get ic zoom (pt_y (quadrantCoord coord i j)) (pt_x (quadrantCoord coord i j)) lod
           \<noteq> None
         \<or> snd (compositeFromSmaller ic cv' (quadrantCoord coord i j) drect' (zoom + 1) (lod - 1)
                 (snd (proxyLookup (cache_mipmap ic zoom (pt_y (quadrantCoord coord i j))
                                      (pt_x (quadrantCoord coord i j))) lod pbt)))))
   \<and> ((\<forall>k y x. cache_get ic (zoom + int k) y x (lod - int k) = None)
        \<longrightarrow> \<not> snd (compositeFromSmaller ic cv coord drect zoom lod pbt))"
proof (intro conjI impI)
  show "snd (compositeFromSmaller ic cv coord drect zoom lod pbt) =
     (0 \<le> lod + pbt \<and>
      (\<forall>j\<in>{0, 1}. \<forall>i\<in>{0, 1}.
         cache_get ic zoom (pt_y (quadrantCoord coord i j)) (pt_x (quadrantCoord coord i j)) lod
           \<noteq> None
         \<or> snd (compositeFromSmaller ic cv' (quadrantCoord coord i j) drect' (zoom + 1) (lod - 1)
                 (snd (proxyLookup (cache_mipmap ic zoom (pt_y (quadrantCoord coord i j))
                                      (pt_x (quadrantCoord coord i j))) lod pbt)))))"
  proof (cases "lod + pbt < 0")
    case True
    then show ?thesis by (simp add: compositeFromSmaller.simps)
  next
    case False
    then show ?thesis
      unfolding compositeFromSmaller.simps [of ic cv coord drect zoom lod pbt]
      by (simp add: compositeQuadrant_complete [where cv' = cv' and drect' = drect'] conj_ac)
  qed
next
  assume "\<forall>k y x. cache_get ic (zoom + int k) y x (lod - int k) = None"
  then show "\<not> snd (compositeFromSmaller ic cv coord drect zoom lod pbt)"
    by (rule compositeFromSmaller_no_exact)
qed


text \<open>Example data: image number \<open>n\<close> fetched for the tile \<open>(zoom, y, x)\<close> at \<open>lod\<close>, and caches.\<close>

definition tileImage :: "nat \<Rightarrow> int \<Rightarrow> int \<Rightarrow> int \<Rightarrow> int \<Rightarrow> image" where
  "tileImage n zoom y x lod =
     \<lparr>img_id = n, img_coord = \<lparr>pt_x = x, pt_y = y\<rparr>, img_zoom = zoom, img_lod = lod\<rparr>"

definition blankTile :: canvas where
  "blankTile = \<lparr>cv_width = 256, cv_height = 256, cv_draws = []\<rparr>"

definition proxyOnlyCache :: cache where
  "proxyOnlyCache = cache_store Map.empty 1 0 0 0 (tileImage 0 1 0 0 0)"

definition grandchildrenCache :: cache where
  "grandchildrenCache =
     cache_store (cache_store (cache_store (cache_store
       (cache_store (cache_store (cache_store (cache_store Map.empty
          1 0 0 0 (tileImage 0 1 0 0 0))
          1 0 1 1 (tileImage 1 1 0 1 1))
          1 1 0 1 (tileImage 2 1 1 0 1))
          1 1 1 1 (tileImage 3 1 1 1 1))
       2 0 0 0 (tileImage 4 2 0 0 0))
       2 0 1 0 (tileImage 5 2 0 1 0))
       2 1 0 0 (tileImage 6 2 1 0 0))
       2 1 1 0 (tileImage 7 2 1 1 0)"

lemma proxyOnlyCache_no_exact:
  "\<forall>k y x. cache_get proxyOnlyCache (1 + int k) y x (1 - int k) = None"
  by (auto simp: proxyOnlyCache_def cache_get_store)

text \<open>A cache holding one image, at LOD 0 where LOD 1 is wanted: the composite is incomplete.\<close>

theorem compositeFromSmaller_complete_witness:
  "(\<forall>k y x. cache_get proxyOnlyCache (1 + int k) y x (1 - int k) = None)
   \<and> cache_get proxyOnlyCache 1 0 0 0 = Some (tileImage 0 1 0 0 0)
   \<and> \<not> snd (compositeFromSmaller proxyOnlyCache blankTile \<lparr>pt_x = 0, pt_y = 0\<rparr>
              \<lparr>rc_x = 0, rc_y = 0, rc_w = 256, rc_h = 256\<rparr> 1 1 3)"
  using compositeFromSmaller_complete
          [of proxyOnlyCache blankTile "\<lparr>pt_x = 0, pt_y = 0\<rparr>"
              "\<lparr>rc_x = 0, rc_y = 0, rc_w = 256, rc_h = 256\<rparr>" 1 1 3, THEN conjunct2]
        proxyOnlyCache_no_exact
  by (simp add: proxyOnlyCache_def cache_get_store)

lemma grandchildren_complete:
  "snd (compositeFromSmaller grandchildrenCache blankTile \<lparr>pt_x = 0, pt_y = 0\<rparr>
              \<lparr>rc_x = 0, rc_y = 0, rc_w = 256, rc_h = 256\<rparr> 1 1 3)"
  by (simp add: compositeFromSmaller.simps compositeQuadrant.simps grandchildrenCache_def
        cache_mipmap_store mipmap_set_def mipmap_get_def
        quadrantCoord_def quadrantRect_def js_shl_def js_sar_def proxyLookup_def
        findNearestLod_def nearest_visit_def js_ge_def Let_def)


text \<open>
  C4 as stated fails: the quadrant \<open>(zoom 1, y 0, x 0)\<close> holds only a proxy at LOD 0 where
  LOD 1 is wanted, its four children at zoom 2 hold exact entries at LOD 0, the other three
  quadrants hold exact entries, and the composite is complete.
\<close>

theorem compositeFromSmaller_complete_counterexample:
  "snd (compositeFromSmaller grandchildrenCache blankTile \<lparr>pt_x = 0, pt_y = 0\<rparr>
              \<lparr>rc_x = 0, rc_y = 0, rc_w = 256, rc_h = 256\<rparr> 1 1 3)
   \<and> quadrantCoord \<lparr>pt_x = 0, pt_y = 0\<rparr> 0 0 = \<lparr>pt_x = 0, pt_y = 0\<rparr>
   \<and> cache_get grandchildrenCache 1 0 0 1 = None
   \<and> cache_get grandchildrenCache 1 0 0 0 = Some (tileImage 0 1 0 0 0)
   \<and> \<not> (snd (compositeFromSmaller grandchildrenCache blankTile \<lparr>pt_x = 0, pt_y = 0\<rparr>
              \<lparr>rc_x = 0, rc_y = 0, rc_w = 256, rc_h = 256\<rparr> 1 1 3)
          \<longrightarrow> (\<forall>j\<in>{0, 1}. \<forall>i\<in>{0, 1}.
                 cache_get grandchildrenCache 1 (pt_y (quadrantCoord \<lparr>pt_x = 0, pt_y = 0\<rparr> i j))
                   (pt_x (quadrantCoord \<lparr>pt_x = 0, pt_y = 0\<rparr> i j)) 1 \<noteq> None))"
proof -
  have q: "quadrantCoord \<lparr>pt_x = 0, pt_y = 0\<rparr> 0 0 = \<lparr>pt_x = 0, pt_y = 0\<rparr>"
    by (simp add: quadrantCoord_def js_shl_def)
  have miss: "cache_get grandchildrenCache 1 0 0 1 = None"
    by (simp add: grandchildrenCache_def cache_get_store)
  have proxy: "cache_get grandchildrenCache 1 0 0 0 = Some (tileImage 0 1 0 0 0)"
    by (simp add: grandchildrenCache_def cache_get_store)
  have "\<not> (\<forall>j\<in>{0, 1}. \<forall>i\<in>{0, 1}.
                 cache_get grandchildrenCache 1 (pt_y (quadrantCoord \<lparr>pt_x = 0, pt_y = 0\<rparr> i j))
                   (pt_x (quadrantCoord \<lparr>pt_x = 0, pt_y = 0\<rparr> i j)) 1 \<noteq> None)"
  proof
    assume "\<forall>j\<in>{0, 1}. \<forall>i\<in>{0, 1}.
                 cache_get grandchildrenCache 1 (pt_y (quadrantCoord \<lparr>pt_x = 0, pt_y = 0\<rparr> i j))
                   (pt_x (quadrantCoord \<lparr>pt_x = 0, pt_y = 0\<rparr> i j)) 1 \<noteq> None"
    then have "cache_get grandchildrenCache 1 (pt_y (quadrantCoord \<lparr>pt_x = 0, pt_y = 0\<rparr> 0 0))
                   (pt_x (quadrantCoord \<lparr>pt_x = 0, pt_y = 0\<rparr> 0 0)) 1 \<noteq> None"
      by simp
    then show False unfolding q using miss by simp
  qed
  then show ?thesis
    apply (intro conjI)
        apply (rule grandchildren_complete)
       apply (rule q)
      apply (rule miss)
     apply (rule proxy)
    apply (simp only: grandchildren_complete simp_thms)
    done
qed

section \<open>Termination of the compositor\<close>


text \<open>
  \<open>compositeFromSmaller_compositeQuadrant_rel c d\<close> holds when evaluating the call \<open>d\<close> makes
  the call \<open>c\<close> directly (\<open>Inl\<close>: a call of \<open>compositeFromSmaller\<close>, \<open>Inr\<close>: an
  iteration of its loop), and \<open>compositeFromSmaller_compositeQuadrant_dom d\<close> that every chain
  of calls below \<open>d\<close> is finite.
\<close>

lemma compositeFromSmaller_rel_decreases:
  assumes "compositeFromSmaller_compositeQuadrant_rel a b"
  shows "(case a of
            Inl (ic, cv, coord, drect, zoom, lod, pbt) \<Rightarrow>
              (if lod + pbt < 0 then 0 else 2 * nat (lod + pbt + 1) + 2)
          | Inr (ic, st, coord, drect, zoom, lod, pbt, j, i) \<Rightarrow> 2 * nat (lod + pbt + 1) + 1)
       < (case b of
            Inl (ic, cv, coord, drect, zoom, lod, pbt) \<Rightarrow>
              (if lod + pbt < 0 then 0 else 2 * nat (lod + pbt + 1) + 2)
          | Inr (ic, st, coord, drect, zoom, lod, pbt, j, i) \<Rightarrow> 2 * nat (lod + pbt + 1) + (1::nat))"
  using assms
proof (cases rule: compositeFromSmaller_compositeQuadrant_rel.cases)
  case (5 ic st coord drect zoom lod pbt j i cc cd mipmap found)
  have "snd found \<le> pbt"
    using 5 proxyLookup_le [of mipmap lod pbt] by simp
  with 5 show ?thesis by (auto simp: nat_less_iff)
qed simp_all

text \<open>
  C8. \<open>compositeFromSmaller\<close> terminates for every integer \<open>lod\<close> and bound
  \<open>proxyBetterThan\<close>: when \<open>lod + proxyBetterThan < 0\<close> it returns \<open>false\<close> and makes no
  call; every recursive call, made through an iteration of the loop, has \<open>lod - 1\<close> and a
  bound no larger than the caller's, so \<open>lod + proxyBetterThan\<close> strictly decreases.
\<close>

theorem compositeFromSmaller_terminates:
  "compositeFromSmaller_compositeQuadrant_dom (Inl (ic, cv, coord, drect, zoom, lod, pbt))
   \<and> (lod + pbt < 0 \<longrightarrow>
        compositeFromSmaller ic cv coord drect zoom lod pbt = (cv, False)
        \<and> (\<forall>c. \<not> compositeFromSmaller_compositeQuadrant_rel c
                     (Inl (ic, cv, coord, drect, zoom, lod, pbt))))
   \<and> (\<forall>q ic' cv' coord' drect' zoom' lod' pbt'.
        compositeFromSmaller_compositeQuadrant_rel q (Inl (ic, cv, coord, drect, zoom, lod, pbt))
        \<and> compositeFromSmaller_compositeQuadrant_rel
             (Inl (ic', cv', coord', drect', zoom', lod', pbt')) q
        \<longrightarrow> 0 \<le> lod + pbt \<and> zoom' = zoom + 1 \<and> lod' = lod - 1 \<and> pbt' \<le> pbt
            \<and> lod' + pbt' < lod + pbt)"
proof (intro conjI impI allI)
  have "wfp compositeFromSmaller_compositeQuadrant_rel"
    by (rule wfp_if_convertible_to_nat) (rule compositeFromSmaller_rel_decreases)
  then show "compositeFromSmaller_compositeQuadrant_dom (Inl (ic, cv, coord, drect, zoom, lod, pbt))"
    by (rule accp_wfpD)
next
  assume "lod + pbt < 0"
  then show "compositeFromSmaller ic cv coord drect zoom lod pbt = (cv, False)"
    by (simp add: compositeFromSmaller.simps)
next
  fix c
  assume neg: "lod + pbt < 0"
  show "\<not> compositeFromSmaller_compositeQuadrant_rel c (Inl (ic, cv, coord, drect, zoom, lod, pbt))"
  proof
    assume "compositeFromSmaller_compositeQuadrant_rel c (Inl (ic, cv, coord, drect, zoom, lod, pbt))"
    then show False
      using neg by (cases rule: compositeFromSmaller_compositeQuadrant_rel.cases) auto
  qed
next
  fix q ic' cv' coord' drect' zoom' lod' pbt'
  assume a: "compositeFromSmaller_compositeQuadrant_rel q (Inl (ic, cv, coord, drect, zoom, lod, pbt))
        \<and> compositeFromSmaller_compositeQuadrant_rel
             (Inl (ic', cv', coord', drect', zoom', lod', pbt')) q"
  from a have 1: "compositeFromSmaller_compositeQuadrant_rel q (Inl (ic, cv, coord, drect, zoom, lod, pbt))"
    by simp
  from a have 2: "compositeFromSmaller_compositeQuadrant_rel (Inl (ic', cv', coord', drect', zoom', lod', pbt')) q"
    by simp
  from 1 obtain st j i where q: "q = Inr (ic, st, coord, drect, zoom, lod, pbt, j, i)"
    and nn: "\<not> lod + pbt < 0"
    by (cases rule: compositeFromSmaller_compositeQuadrant_rel.cases) auto
  from 2 [unfolded q] have r: "zoom' = zoom + 1 \<and> lod' = lod - 1 \<and> pbt' \<le> pbt"
    by (cases rule: compositeFromSmaller_compositeQuadrant_rel.cases) (auto simp: proxyLookup_le)
  show "0 \<le> lod + pbt" using nn by simp
  show "zoom' = zoom + 1" using r by simp
  show "lod' = lod - 1" using r by simp
  show "pbt' \<le> pbt" using r by simp
  show "lod' + pbt' < lod + pbt" using r by simp
qed

section \<open>Independence of the quadrants\<close>


lemma composite_frame:
  "(\<forall>z y x. zoom \<le> z \<longrightarrow> cache_mipmap ic' z y x = cache_mipmap ic z y x)
     \<Longrightarrow> compositeFromSmaller ic' cv coord drect zoom lod pbt
         = compositeFromSmaller ic cv coord drect zoom lod pbt"
  and composite_frame_quadrant:
    "cache_mipmap ic' zoom (pt_y (quadrantCoord coord i j)) (pt_x (quadrantCoord coord i j))
         = cache_mipmap ic zoom (pt_y (quadrantCoord coord i j)) (pt_x (quadrantCoord coord i j))
     \<Longrightarrow> (\<forall>z y x. zoom < z \<longrightarrow> cache_mipmap ic' z y x = cache_mipmap ic z y x)
     \<Longrightarrow> compositeQuadrant ic' st coord drect zoom lod pbt j i
         = compositeQuadrant ic st coord drect zoom lod pbt j i"
proof (induction ic cv coord drect zoom lod pbt and ic st coord drect zoom lod pbt j i
       rule: compositeFromSmaller_compositeQuadrant.induct)
  case (1 ic cv coord drect zoom lod pbt)
  show ?case
  proof (cases "lod + pbt < 0")
    case True
    then show ?thesis by (simp add: compositeFromSmaller.simps)
  next
    case False
    have own: "cache_mipmap ic' zoom y x = cache_mipmap ic zoom y x" for y x
      using "1.prems" by simp
    have deeper: "\<forall>z y x. zoom < z \<longrightarrow> cache_mipmap ic' z y x = cache_mipmap ic z y x"
      using "1.prems" by simp
    note ih = "1.IH" [OF False own deeper]
    show ?thesis
      using False
      by (simp add: compositeFromSmaller.simps [of ic'] compositeFromSmaller.simps [of ic] ih)
  qed
next
  case (2 ic st coord drect zoom lod pbt j i)
  let ?cc = "quadrantCoord coord i j"
  let ?mm = "cache_mipmap ic zoom (pt_y ?cc) (pt_x ?cc)"
  have mm: "cache_mipmap ic' zoom (pt_y ?cc) (pt_x ?cc) = ?mm"
    by (rule "2.prems"(1))
  show ?case
  proof (cases "cache_get ic zoom (pt_y ?cc) (pt_x ?cc) lod")
    case (Some child)
    moreover from Some have "cache_get ic' zoom (pt_y ?cc) (pt_x ?cc) lod = Some child"
      by (simp add: cache_get_def mm)
    ultimately show ?thesis by (simp add: compositeQuadrant_hit)
  next
    case None
    then have None': "cache_get ic' zoom (pt_y ?cc) (pt_x ?cc) lod = None"
      by (simp add: cache_get_def mm)
    have n: "(case ?mm of None \<Rightarrow> None | Some m \<Rightarrow> mipmap_get m lod) = None"
      using None by (simp add: cache_get_def)
    have deeper: "\<forall>z y x. zoom + 1 \<le> z \<longrightarrow> cache_mipmap ic' z y x = cache_mipmap ic z y x"
      using "2.prems"(2) by simp
    note ih = "2.IH" [OF refl refl refl n refl deeper]
    show ?thesis
      by (simp add: compositeQuadrant_miss [OF None] compositeQuadrant_miss [OF None'] mm ih
            Let_def)
  qed
qed

text \<open>
  C10. Every iteration of the loop of \<open>compositeFromSmaller\<close> gets the caller's
  \<open>proxyBetterThan\<close>, whatever the earlier iterations did; the bound an iteration passes to its
  recursive call is the one its own proxy search returns from the caller's bound and the
  mipmap of its own cell; and what an iteration does is the same in every cache that agrees
  on its own cell and on the deeper zoom levels, so the sibling cells do not matter.
\<close>

theorem compositeQuadrant_own_bound:
  "(\<forall>c. compositeFromSmaller_compositeQuadrant_rel c (Inl (ic, cv, coord, drect, zoom, lod, pbt))
         \<longrightarrow> (\<exists>st j i. j \<in> {0, 1} \<and> i \<in> {0, 1}
                \<and> c = Inr (ic, st, coord, drect, zoom, lod, pbt, j, i)))
   \<and> (\<forall>c. compositeFromSmaller_compositeQuadrant_rel c
              (Inr (ic, st, coord, drect, zoom, lod, pbt, j, i))
         \<longrightarrow> (\<exists>cv'. c = Inl (ic, cv', quadrantCoord coord i j, quadrantRect drect i j,
                  zoom + 1, lod - 1,
                  snd (proxyLookup (cache_mipmap ic zoom (pt_y (quadrantCoord coord i j))
                                      (pt_x (quadrantCoord coord i j))) lod pbt))))
   \<and> (cache_mipmap ic' zoom (pt_y (quadrantCoord coord i j)) (pt_x (quadrantCoord coord i j))
         = cache_mipmap ic zoom (pt_y (quadrantCoord coord i j)) (pt_x (quadrantCoord coord i j))
       \<and> (\<forall>z y x. zoom < z \<longrightarrow> cache_mipmap ic' z y x = cache_mipmap ic z y x)
       \<longrightarrow> compositeQuadrant ic' st coord drect zoom lod pbt j i
           = compositeQuadrant ic st coord drect zoom lod pbt j i)"
proof (intro conjI allI impI)
  fix c
  assume "compositeFromSmaller_compositeQuadrant_rel c (Inl (ic, cv, coord, drect, zoom, lod, pbt))"
  then show "\<exists>st j i. j \<in> {0, 1} \<and> i \<in> {0, 1}
                \<and> c = Inr (ic, st, coord, drect, zoom, lod, pbt, j, i)"
    by (cases rule: compositeFromSmaller_compositeQuadrant_rel.cases) auto
next
  fix c
  assume "compositeFromSmaller_compositeQuadrant_rel c
              (Inr (ic, st, coord, drect, zoom, lod, pbt, j, i))"
  then show "\<exists>cv'. c = Inl (ic, cv', quadrantCoord coord i j, quadrantRect drect i j,
                  zoom + 1, lod - 1,
                  snd (proxyLookup (cache_mipmap ic zoom (pt_y (quadrantCoord coord i j))
                                      (pt_x (quadrantCoord coord i j))) lod pbt))"
    by (cases rule: compositeFromSmaller_compositeQuadrant_rel.cases) auto
next
  assume "cache_mipmap ic' zoom (pt_y (quadrantCoord coord i j)) (pt_x (quadrantCoord coord i j))
         = cache_mipmap ic zoom (pt_y (quadrantCoord coord i j)) (pt_x (quadrantCoord coord i j))
       \<and> (\<forall>z y x. zoom < z \<longrightarrow> cache_mipmap ic' z y x = cache_mipmap ic z y x)"
  then show "compositeQuadrant ic' st coord drect zoom lod pbt j i
           = compositeQuadrant ic st coord drect zoom lod pbt j i"
    using composite_frame_quadrant [of ic' zoom coord i j ic st drect lod pbt] by blast
qed


definition siblingProxyCache :: cache where
  "siblingProxyCache = cache_store proxyOnlyCache 1 0 1 2 (tileImage 1 1 0 1 2)"

text \<open>
  The sibling quadrant \<open>(y 0, x 1)\<close> gets a proxy of its own, with difference 1: the
  quadrant \<open>(y 0, x 0)\<close> is processed as before and the quadrant \<open>(y 1, x 0)\<close>, which has
  no mipmap, still passes the caller's bound 3.
\<close>

theorem compositeQuadrant_own_bound_witness:
  "compositeQuadrant siblingProxyCache (blankTile, True) \<lparr>pt_x = 0, pt_y = 0\<rparr>
       \<lparr>rc_x = 0, rc_y = 0, rc_w = 256, rc_h = 256\<rparr> 1 1 3 0 0
     = compositeQuadrant proxyOnlyCache (blankTile, True) \<lparr>pt_x = 0, pt_y = 0\<rparr>
         \<lparr>rc_x = 0, rc_y = 0, rc_w = 256, rc_h = 256\<rparr> 1 1 3 0 0
   \<and> cache_mipmap siblingProxyCache 1 0 1 = Some [None, None, Some (tileImage 1 1 0 1 2)]
   \<and> cache_mipmap proxyOnlyCache 1 0 1 = None
   \<and> snd (proxyLookup (cache_mipmap siblingProxyCache 1 0 1) 1 3) = 1
   \<and> snd (proxyLookup (cache_mipmap siblingProxyCache 1 0 0) 1 3) = 1
   \<and> snd (proxyLookup (cache_mipmap siblingProxyCache 1 1 0) 1 3) = 3"
proof -
  have q: "quadrantCoord \<lparr>pt_x = 0, pt_y = 0\<rparr> 0 0 = \<lparr>pt_x = 0, pt_y = 0\<rparr>"
    by (simp add: quadrantCoord_def js_shl_def)
  have own: "cache_mipmap siblingProxyCache 1
               (pt_y (quadrantCoord \<lparr>pt_x = 0, pt_y = 0\<rparr> 0 0))
               (pt_x (quadrantCoord \<lparr>pt_x = 0, pt_y = 0\<rparr> 0 0))
           = cache_mipmap proxyOnlyCache 1
               (pt_y (quadrantCoord \<lparr>pt_x = 0, pt_y = 0\<rparr> 0 0))
               (pt_x (quadrantCoord \<lparr>pt_x = 0, pt_y = 0\<rparr> 0 0))"
    unfolding q by (simp add: siblingProxyCache_def cache_mipmap_store)
  have deeper: "\<forall>z y x. 1 < z \<longrightarrow>
                  cache_mipmap siblingProxyCache z y x = cache_mipmap proxyOnlyCache z y x"
    by (simp add: siblingProxyCache_def cache_mipmap_store)
  have "compositeQuadrant siblingProxyCache (blankTile, True) \<lparr>pt_x = 0, pt_y = 0\<rparr>
       \<lparr>rc_x = 0, rc_y = 0, rc_w = 256, rc_h = 256\<rparr> 1 1 3 0 0
     = compositeQuadrant proxyOnlyCache (blankTile, True) \<lparr>pt_x = 0, pt_y = 0\<rparr>
         \<lparr>rc_x = 0, rc_y = 0, rc_w = 256, rc_h = 256\<rparr> 1 1 3 0 0"
    using compositeQuadrant_own_bound
            [of proxyOnlyCache blankTile "\<lparr>pt_x = 0, pt_y = 0\<rparr>"
                "\<lparr>rc_x = 0, rc_y = 0, rc_w = 256, rc_h = 256\<rparr>" 1 1 3 "(blankTile, True)" 0 0
                siblingProxyCache, THEN conjunct2, THEN conjunct2]
          own deeper
    by blast
  moreover have "cache_mipmap siblingProxyCache 1 0 1 = Some [None, None, Some (tileImage 1 1 0 1 2)]"
    "cache_mipmap proxyOnlyCache 1 0 1 = None"
    "snd (proxyLookup (cache_mipmap siblingProxyCache 1 0 1) 1 3) = 1"
    "snd (proxyLookup (cache_mipmap siblingProxyCache 1 0 0) 1 3) = 1"
    "snd (proxyLookup (cache_mipmap siblingProxyCache 1 1 0) 1 3) = 3"
    by (simp_all add: siblingProxyCache_def proxyOnlyCache_def cache_mipmap_store mipmap_set_def
          proxyLookup_def findNearestLod_def nearest_visit_def js_ge_def numeral_eq_Suc)
  ultimately show ?thesis by (simp only: simp_thms)
qed

text \<open>A call below the bound, and a recursive call of a call above it.\<close>

theorem compositeFromSmaller_terminates_witness:
  "compositeFromSmaller_compositeQuadrant_dom
     (Inl (Map.empty, blankTile, \<lparr>pt_x = 0, pt_y = 0\<rparr>,
           \<lparr>rc_x = 0, rc_y = 0, rc_w = 256, rc_h = 256\<rparr>, 5, - 4, 3))
   \<and> compositeFromSmaller Map.empty blankTile \<lparr>pt_x = 0, pt_y = 0\<rparr>
         \<lparr>rc_x = 0, rc_y = 0, rc_w = 256, rc_h = 256\<rparr> 5 (- 4) 3 = (blankTile, False)
   \<and> compositeFromSmaller_compositeQuadrant_rel
        (Inr (Map.empty, (blankTile, True), \<lparr>pt_x = 0, pt_y = 0\<rparr>,
              \<lparr>rc_x = 0, rc_y = 0, rc_w = 256, rc_h = 256\<rparr>, 1, 1, 3, 0, 0))
        (Inl (Map.empty, blankTile, \<lparr>pt_x = 0, pt_y = 0\<rparr>,
              \<lparr>rc_x = 0, rc_y = 0, rc_w = 256, rc_h = 256\<rparr>, 1, 1, 3))
   \<and> compositeFromSmaller_compositeQuadrant_rel
        (Inl (Map.empty, blankTile, \<lparr>pt_x = 0, pt_y = 0\<rparr>,
              \<lparr>rc_x = 0, rc_y = 0, rc_w = 128, rc_h = 128\<rparr>, 2, 0, 3))
        (Inr (Map.empty, (blankTile, True), \<lparr>pt_x = 0, pt_y = 0\<rparr>,
              \<lparr>rc_x = 0, rc_y = 0, rc_w = 256, rc_h = 256\<rparr>, 1, 1, 3, 0, 0))
   \<and> (0::int) + 3 < 1 + 3"
proof -
  note t0 = compositeFromSmaller_terminates
              [of Map.empty blankTile "\<lparr>pt_x = 0, pt_y = 0\<rparr>"
                  "\<lparr>rc_x = 0, rc_y = 0, rc_w = 256, rc_h = 256\<rparr>" 5 "- 4" 3]
  have r1: "compositeFromSmaller_compositeQuadrant_rel
        (Inr (Map.empty, (blankTile, True), \<lparr>pt_x = 0, pt_y = 0\<rparr>,
              \<lparr>rc_x = 0, rc_y = 0, rc_w = 256, rc_h = 256\<rparr>, 1, 1, 3, 0, 0))
        (Inl (Map.empty, blankTile, \<lparr>pt_x = 0, pt_y = 0\<rparr>,
              \<lparr>rc_x = 0, rc_y = 0, rc_w = 256, rc_h = 256\<rparr>, 1, 1, 3))"
    by (rule compositeFromSmaller_compositeQuadrant_rel.intros(1)) simp
  have r2: "compositeFromSmaller_compositeQuadrant_rel
        (Inl (Map.empty,
              (case fst (proxyLookup (cache_mipmap Map.empty 1
                           (pt_y (quadrantCoord \<lparr>pt_x = 0, pt_y = 0\<rparr> 0 0))
                           (pt_x (quadrantCoord \<lparr>pt_x = 0, pt_y = 0\<rparr> 0 0))) 1 3) of
                 None \<Rightarrow> fst (blankTile, True)
               | Some proxy \<Rightarrow> drawImage (fst (blankTile, True)) proxy
                    (quadrantRect \<lparr>rc_x = 0, rc_y = 0, rc_w = 256, rc_h = 256\<rparr> 0 0)),
              quadrantCoord \<lparr>pt_x = 0, pt_y = 0\<rparr> 0 0,
              quadrantRect \<lparr>rc_x = 0, rc_y = 0, rc_w = 256, rc_h = 256\<rparr> 0 0, 1 + 1, 1 - 1,
              snd (proxyLookup (cache_mipmap Map.empty 1
                           (pt_y (quadrantCoord \<lparr>pt_x = 0, pt_y = 0\<rparr> 0 0))
                           (pt_x (quadrantCoord \<lparr>pt_x = 0, pt_y = 0\<rparr> 0 0))) 1 3)))
        (Inr (Map.empty, (blankTile, True), \<lparr>pt_x = 0, pt_y = 0\<rparr>,
              \<lparr>rc_x = 0, rc_y = 0, rc_w = 256, rc_h = 256\<rparr>, 1, 1, 3, 0, 0))"
    by (rule compositeFromSmaller_compositeQuadrant_rel.intros(5) [OF refl refl refl _ refl]) simp
  have r2': "compositeFromSmaller_compositeQuadrant_rel
        (Inl (Map.empty, blankTile, \<lparr>pt_x = 0, pt_y = 0\<rparr>,
              \<lparr>rc_x = 0, rc_y = 0, rc_w = 128, rc_h = 128\<rparr>, 2, 0, 3))
        (Inr (Map.empty, (blankTile, True), \<lparr>pt_x = 0, pt_y = 0\<rparr>,
              \<lparr>rc_x = 0, rc_y = 0, rc_w = 256, rc_h = 256\<rparr>, 1, 1, 3, 0, 0))"
    using r2 by (simp add: proxyLookup_def quadrantCoord_def quadrantRect_def js_shl_def js_sar_def)
  note t1 = compositeFromSmaller_terminates
              [of Map.empty blankTile "\<lparr>pt_x = 0, pt_y = 0\<rparr>"
                  "\<lparr>rc_x = 0, rc_y = 0, rc_w = 256, rc_h = 256\<rparr>" 1 1 3,
               THEN conjunct2, THEN conjunct2, rule_format, OF conjI [OF r1 r2']]
  show ?thesis
    using t0 t1 r1 r2' by simp
qed

section \<open>The content assembler\<close>


text \<open>A cache without any mipmap gives no ancestor candidate and a blank, incomplete composite.\<close>

lemma tileFromLarger_loop_empty:
  assumes "\<forall>z y x. cache_mipmap ic z y x = None"
  shows "tileFromLarger_loop ic zoom coord lod levelsAbove best bestDifference
           = (best, bestDifference)"
  using assms
proof (induction ic zoom coord lod levelsAbove best bestDifference
       rule: tileFromLarger_loop.induct)
  case (1 ic zoom coord lod levelsAbove best bestDifference)
  show ?case
  proof (cases "0 \<le> zoom - levelsAbove")
    case True
    have none: "cache_mipmap ic (zoom - levelsAbove)
                  (pt_y \<lparr>pt_x = js_sar (pt_x coord) levelsAbove, pt_y = js_sar (pt_y coord) levelsAbove\<rparr>)
                  (pt_x \<lparr>pt_x = js_sar (pt_x coord) levelsAbove, pt_y = js_sar (pt_y coord) levelsAbove\<rparr>)
                = None"
      using "1.prems" by blast
    show ?thesis
      using "1.IH"(1) [OF refl True refl none "1.prems"] True none
      by (simp add: tileFromLarger_loop.simps [of ic zoom coord lod levelsAbove])
  next
    case False
    then show ?thesis
      by (simp add: tileFromLarger_loop.simps [of ic zoom coord lod levelsAbove])
  qed
qed

lemma tileFromLarger_empty:
  "\<forall>z y x. cache_mipmap ic z y x = None \<Longrightarrow> tileFromLarger ts ic zoom coord lod = (None, None)"
  by (simp add: tileFromLarger_def tileFromLarger_loop_empty)

lemma compositeFromSmaller_empty:
  "\<forall>z y x. cache_mipmap ic z y x = None
     \<Longrightarrow> compositeFromSmaller ic cv coord drect zoom lod pbt = (cv, False)"
  and compositeQuadrant_empty:
  "\<forall>z y x. cache_mipmap ic z y x = None
     \<Longrightarrow> compositeQuadrant ic st coord drect zoom lod pbt j i = (fst st, False)"
proof (induction ic cv coord drect zoom lod pbt and ic st coord drect zoom lod pbt j i
       rule: compositeFromSmaller_compositeQuadrant.induct)
  case (1 ic cv coord drect zoom lod pbt)
  show ?case
  proof (cases "lod + pbt < 0")
    case True
    then show ?thesis by (simp add: compositeFromSmaller.simps)
  next
    case False
    let ?a = "compositeQuadrant ic (cv, True) coord drect zoom lod pbt 0 0"
    let ?b = "compositeQuadrant ic ?a coord drect zoom lod pbt 0 1"
    let ?c = "compositeQuadrant ic ?b coord drect zoom lod pbt 1 0"
    let ?d = "compositeQuadrant ic ?c coord drect zoom lod pbt 1 1"
    have a: "?a = (cv, False)" using "1.IH"(1) [OF False "1.prems"] by simp
    have b: "?b = (cv, False)" using "1.IH"(2) [OF False "1.prems"] a by simp
    have c: "?c = (cv, False)" using "1.IH"(3) [OF False "1.prems"] b by simp
    have d: "?d = (cv, False)" using "1.IH"(4) [OF False "1.prems"] c by simp
    show ?thesis
      using False d by (simp add: compositeFromSmaller.simps)
  qed
next
  case (2 ic st coord drect zoom lod pbt j i)
  let ?cc = "quadrantCoord coord i j"
  have mm: "cache_mipmap ic zoom (pt_y ?cc) (pt_x ?cc) = None"
    using "2.prems" by blast
  then have None: "cache_get ic zoom (pt_y ?cc) (pt_x ?cc) lod = None"
    by (simp add: cache_get_def)
  have n: "(case cache_mipmap ic zoom (pt_y ?cc) (pt_x ?cc) of None \<Rightarrow> None
            | Some m \<Rightarrow> mipmap_get m lod) = None"
    using mm by simp
  note ih = "2.IH" [OF refl refl refl n refl "2.prems"]
  show ?case
    unfolding compositeQuadrant_miss [OF None] Let_def
    using ih by (simp add: mm proxyLookup_def)
qed

lemma tileFromSmaller_empty:
  "\<forall>z y x. cache_mipmap ic z y x = None
     \<Longrightarrow> tileFromSmaller ts ic zoom coord lod pbt
           = (createCanvas ts, False)"
  by (simp add: tileFromSmaller_def compositeFromSmaller_empty Let_def)

lemma tileFromLarger_cases:
  "tileFromLarger ts ic zoom coord lod = (None, None)
   \<or> (\<exists>cv d. tileFromLarger ts ic zoom coord lod = (Some cv, d))"
  by (cases "tileFromLarger_loop ic zoom coord lod 0 None None")
     (auto simp: tileFromLarger_def Let_def split: option.splits)

lemma createTileContent_layers:
  "fst (createTileContent s coord zoom lod) \<noteq> []
   \<and> NullLayer \<notin> set (fst (createTileContent s coord zoom lod))"
  using tileFromLarger_cases [of "tileSize s" "imageCache s" zoom coord lod]
  by (auto simp: createTileContent_def Let_def split: option.splits)

lemma getTileContent_empty:
  assumes e: "\<forall>z y x. cache_mipmap (imageCache s) z y x = None"
  shows "getTileContent s coord zoom =
          ([CanvasLayer (createCanvas (tileSize s)),
            ImageLayer \<lparr>img_id = next_id s, img_coord = coord, img_zoom = zoom,
                        img_lod = max (min (levelOfDetail s - zoom) (maxOversample s)) 0\<rparr>],
           s\<lparr>next_id := Suc (next_id s),
             pending := pending s @
               [\<lparr>f_image = \<lparr>img_id = next_id s, img_coord = coord, img_zoom = zoom,
                             img_lod = max (min (levelOfDetail s - zoom) (maxOversample s)) 0\<rparr>,
                 f_zoom = zoom, f_coord = coord,
                 f_lod = max (min (levelOfDetail s - zoom) (maxOversample s)) 0\<rparr>]\<rparr>)"
proof -
  from e have "cache_get (imageCache s) zoom (pt_y coord) (pt_x coord) l = None" for l
    by (simp add: cache_get_def)
  then show ?thesis
    by (simp add: getTileContent_def createTileContent_def Let_def fetchTile_def
          tileFromLarger_empty [OF e] tileFromSmaller_empty [OF e])
qed

text \<open>
  C9. For every state, coord and zoom \<open>getTileContent\<close> returns a list of layers that is not
  empty and holds canvases and images only (the model has no exception and no error value; the
  recursion of the compositor terminates). When the cache holds no mipmap at all, the list is
  the blank composite canvas followed by the image whose fetch has just been started.
\<close>

theorem getTileContent_total:
  "fst (getTileContent s coord zoom) \<noteq> []
   \<and> NullLayer \<notin> set (fst (getTileContent s coord zoom))
   \<and> ((\<forall>z y x. cache_mipmap (imageCache s) z y x = None) \<longrightarrow>
        getTileContent s coord zoom =
          ([CanvasLayer (createCanvas (tileSize s)),
            ImageLayer \<lparr>img_id = next_id s, img_coord = coord, img_zoom = zoom,
                        img_lod = max (min (levelOfDetail s - zoom) (maxOversample s)) 0\<rparr>],
           s\<lparr>next_id := Suc (next_id s),
             pending := pending s @
               [\<lparr>f_image = \<lparr>img_id = next_id s, img_coord = coord, img_zoom = zoom,
                             img_lod = max (min (levelOfDetail s - zoom) (maxOversample s)) 0\<rparr>,
                 f_zoom = zoom, f_coord = coord,
                 f_lod = max (min (levelOfDetail s - zoom) (maxOversample s)) 0\<rparr>]\<rparr>))"
proof (intro conjI impI)
  show "fst (getTileContent s coord zoom) \<noteq> []"
    using createTileContent_layers [of s coord zoom]
    by (simp add: getTileContent_def Let_def split: option.splits)
  show "NullLayer \<notin> set (fst (getTileContent s coord zoom))"
    using createTileContent_layers [of s coord zoom]
    by (simp add: getTileContent_def Let_def split: option.splits)
next
  assume "\<forall>z y x. cache_mipmap (imageCache s) z y x = None"
  then show "getTileContent s coord zoom =
          ([CanvasLayer (createCanvas (tileSize s)),
            ImageLayer \<lparr>img_id = next_id s, img_coord = coord, img_zoom = zoom,
                        img_lod = max (min (levelOfDetail s - zoom) (maxOversample s)) 0\<rparr>],
           s\<lparr>next_id := Suc (next_id s),
             pending := pending s @
               [\<lparr>f_image = \<lparr>img_id = next_id s, img_coord = coord, img_zoom = zoom,
                             img_lod = max (min (levelOfDetail s - zoom) (maxOversample s)) 0\<rparr>,
                 f_zoom = zoom, f_coord = coord,
                 f_lod = max (min (levelOfDetail s - zoom) (maxOversample s)) 0\<rparr>]\<rparr>)"
    by (rule getTileContent_empty)
qed

text \<open>The first request on a new map type.\<close>

theorem getTileContent_total_witness:
  "getTileContent (newWmsMapType 256 0 2) \<lparr>pt_x = 0, pt_y = 0\<rparr> 0 =
     ([CanvasLayer \<lparr>cv_width = 256, cv_height = 256, cv_draws = []\<rparr>,
       ImageLayer (tileImage 0 0 0 0 0)],
      (newWmsMapType 256 0 2)\<lparr>next_id := 1,
         pending := [\<lparr>f_image = tileImage 0 0 0 0 0, f_zoom = 0,
                      f_coord = \<lparr>pt_x = 0, pt_y = 0\<rparr>, f_lod = 0\<rparr>]\<rparr>)"
  using getTileContent_total [of "newWmsMapType 256 0 2" "\<lparr>pt_x = 0, pt_y = 0\<rparr>" 0]
  by (simp add: newWmsMapType_def tileImage_def createCanvas_in_range)

text \<open>
  C2. When the cache holds an image at \<open>(zoom, coord.y, coord.x, lod)\<close> for
  \<open>lod = max (min (levelOfDetail - zoom) maxOversample) 0\<close>, \<open>getTileContent\<close> returns that image
  as its only layer and leaves the state as it is: no canvas is made, no element is created
  and no fetch is started.
\<close>

theorem getTileContent_exact_hit:
  assumes "cache_get (imageCache s) zoom (pt_y coord) (pt_x coord)
             (max (min (levelOfDetail s - zoom) (maxOversample s)) 0) = Some cached"
  shows "getTileContent s coord zoom = ([ImageLayer cached], s)"
  using assms by (simp add: getTileContent_def Let_def)

text \<open>An exact entry at \<open>(zoom 5, y 3, x 7, lod 0)\<close>, requested again.\<close>

theorem getTileContent_exact_hit_witness:
  "cache_get (imageCache ((newWmsMapType 256 0 2)
       \<lparr>imageCache := cache_store Map.empty 5 3 7 0 (tileImage 0 5 3 7 0)\<rparr>)) 5 3 7 0
     = Some (tileImage 0 5 3 7 0)
   \<and> getTileContent ((newWmsMapType 256 0 2)
         \<lparr>imageCache := cache_store Map.empty 5 3 7 0 (tileImage 0 5 3 7 0)\<rparr>)
       \<lparr>pt_x = 7, pt_y = 3\<rparr> 5
     = ([ImageLayer (tileImage 0 5 3 7 0)],
        (newWmsMapType 256 0 2)
          \<lparr>imageCache := cache_store Map.empty 5 3 7 0 (tileImage 0 5 3 7 0)\<rparr>)"
proof -
  have hit: "cache_get (imageCache ((newWmsMapType 256 0 2)
       \<lparr>imageCache := cache_store Map.empty 5 3 7 0 (tileImage 0 5 3 7 0)\<rparr>)) 5
         (pt_y \<lparr>pt_x = 7, pt_y = 3\<rparr>) (pt_x \<lparr>pt_x = 7, pt_y = 3\<rparr>)
         (max (min (levelOfDetail ((newWmsMapType 256 0 2)
       \<lparr>imageCache := cache_store Map.empty 5 3 7 0 (tileImage 0 5 3 7 0)\<rparr>) - 5)
           (maxOversample ((newWmsMapType 256 0 2)
       \<lparr>imageCache := cache_store Map.empty 5 3 7 0 (tileImage 0 5 3 7 0)\<rparr>))) 0)
     = Some (tileImage 0 5 3 7 0)"
    by (simp add: newWmsMapType_def cache_get_store)
  show ?thesis
    using getTileContent_exact_hit [OF hit] hit
    by (simp add: newWmsMapType_def)
qed


text \<open>When \<open>createTileContent\<close> starts a fetch, and which.\<close>

lemma createTileContent_fetch:
  "snd (createTileContent s coord zoom lod) =
     (if snd (tileFromLarger (tileSize s) (imageCache s) zoom coord lod) = Some 0
         \<or> snd (tileFromSmaller (tileSize s) (imageCache s) zoom coord lod
                  (case snd (tileFromLarger (tileSize s) (imageCache s) zoom coord lod) of
                     None \<Rightarrow> maxOversample s + 1
                   | Some d \<Rightarrow> if d = 0 then maxOversample s + 1 else d))
      then s
      else s\<lparr>next_id := Suc (next_id s),
             pending := pending s @
               [\<lparr>f_image = \<lparr>img_id = next_id s, img_coord = coord, img_zoom = zoom,
                             img_lod = lod\<rparr>,
                 f_zoom = zoom, f_coord = coord, f_lod = lod\<rparr>]\<rparr>)"
  by (simp add: createTileContent_def Let_def fetchTile_def)

lemma createTileContent_last:
  "\<not> (snd (tileFromLarger (tileSize s) (imageCache s) zoom coord lod) = Some 0
         \<or> snd (tileFromSmaller (tileSize s) (imageCache s) zoom coord lod
                  (case snd (tileFromLarger (tileSize s) (imageCache s) zoom coord lod) of
                     None \<Rightarrow> maxOversample s + 1
                   | Some d \<Rightarrow> if d = 0 then maxOversample s + 1 else d)))
   \<Longrightarrow> last (fst (createTileContent s coord zoom lod)) =
         ImageLayer \<lparr>img_id = next_id s, img_coord = coord, img_zoom = zoom, img_lod = lod\<rparr>"
  by (simp add: createTileContent_def Let_def fetchTile_def)

text \<open>
  A map type with \<open>levelOfDetail = 1\<close> after the root tile was requested and its image
  decoded: the cache holds the root tile at LOD 1.
\<close>

definition ancestorState :: state where
  "ancestorState =
     run (newWmsMapType 256 1 2) [GetTile \<lparr>pt_x = 0, pt_y = 0\<rparr> 0, DecodeResolved 0]"

lemma ancestorState_eq:
  "ancestorState =
     \<lparr>tileSize = 256, levelOfDetail = 1, maxOversample = 2,
      imageCache = cache_store Map.empty 0 0 0 1 (tileImage 1 0 0 0 1),
      activeTiles = [(0, \<lparr>pt_x = 0, pt_y = 0\<rparr>, 0)],
      pending = [],
      divs = [0 \<mapsto> [CanvasLayer \<lparr>cv_width = 256, cv_height = 256, cv_draws = []\<rparr>,
                      ImageLayer (tileImage 1 0 0 0 1)]],
      next_id = 2\<rparr>"
  by (simp add: ancestorState_def run_def getTile_def getTileContent_empty decodeResolved_def
        newWmsMapType_def tileImage_def Let_def createCanvas_in_range)

lemma ancestorState_larger:
  "tileFromLarger (tileSize ancestorState) (imageCache ancestorState) 1 \<lparr>pt_x = 0, pt_y = 0\<rparr> 0 =
     (Some \<lparr>cv_width = 256, cv_height = 256,
            cv_draws = [\<lparr>dc_image = tileImage 1 0 0 0 1, dc_x = 0, dc_y = 0,
                         dc_w = 512, dc_h = 512\<rparr>]\<rparr>,
      Some 0)"
  unfolding ancestorState_eq
  by (simp add: tileFromLarger_def tileFromLarger_loop.simps cache_mipmap_store mipmap_set_def
        js_sar_def js_shl_def findNearestLod_def nearest_visit_def js_ge_def Let_def
        createCanvas_in_range)

text \<open>
  A map type with \<open>levelOfDetail = 2\<close> whose cache is \<open>grandchildrenCache\<close>, and the composite
  of the root tile there: the proxy of the first quadrant under its four children, then the
  three other quadrants.
\<close>

definition grandchildrenState :: state where
  "grandchildrenState = (newWmsMapType 256 2 2)\<lparr>imageCache := grandchildrenCache\<rparr>"

definition grandchildrenComposite :: canvas where
  "grandchildrenComposite =
     \<lparr>cv_width = 256, cv_height = 256,
      cv_draws =
        [\<lparr>dc_image = tileImage 0 1 0 0 0, dc_x = 0, dc_y = 0, dc_w = 128, dc_h = 128\<rparr>,
         \<lparr>dc_image = tileImage 4 2 0 0 0, dc_x = 0, dc_y = 0, dc_w = 64, dc_h = 64\<rparr>,
         \<lparr>dc_image = tileImage 5 2 0 1 0, dc_x = 64, dc_y = 0, dc_w = 64, dc_h = 64\<rparr>,
         \<lparr>dc_image = tileImage 6 2 1 0 0, dc_x = 0, dc_y = 64, dc_w = 64, dc_h = 64\<rparr>,
         \<lparr>dc_image = tileImage 7 2 1 1 0, dc_x = 64, dc_y = 64, dc_w = 64, dc_h = 64\<rparr>,
         \<lparr>dc_image = tileImage 1 1 0 1 1, dc_x = 128, dc_y = 0, dc_w = 128, dc_h = 128\<rparr>,
         \<lparr>dc_image = tileImage 2 1 1 0 1, dc_x = 0, dc_y = 128, dc_w = 128, dc_h = 128\<rparr>,
         \<lparr>dc_image = tileImage 3 1 1 1 1, dc_x = 128, dc_y = 128, dc_w = 128, dc_h = 128\<rparr>]\<rparr>"

lemma grandchildrenState_larger:
  "tileFromLarger (tileSize grandchildrenState) (imageCache grandchildrenState) 0
     \<lparr>pt_x = 0, pt_y = 0\<rparr> 2 = (None, None)"
  by (simp add: grandchildrenState_def newWmsMapType_def tileFromLarger_def
        tileFromLarger_loop.simps grandchildrenCache_def cache_mipmap_store js_sar_def Let_def)

lemma grandchildrenState_smaller:
  "tileFromSmaller (tileSize grandchildrenState) (imageCache grandchildrenState) 0
     \<lparr>pt_x = 0, pt_y = 0\<rparr> 2 (maxOversample grandchildrenState + 1) =
     (grandchildrenComposite, True)"
  by (simp add: grandchildrenState_def newWmsMapType_def tileFromSmaller_def
        createCanvas_in_range grandchildrenComposite_def
        compositeFromSmaller.simps compositeQuadrant.simps grandchildrenCache_def
        cache_mipmap_store mipmap_set_def mipmap_get_def drawImage_def
        quadrantCoord_def quadrantRect_def js_shl_def js_sar_def proxyLookup_def
        findNearestLod_def nearest_visit_def js_ge_def Let_def)

text \<open>
  C3 (amended). On a cache miss \<open>getTileContent\<close> starts no fetch when the larger-tile
  resolver returns the difference 0 or the smaller-tile composite is complete: it returns
  that single canvas (the crop of the ancestor, or the composite) as the only layer and leaves
  the state as it is. Otherwise it starts exactly one fetch, of the exact tile
  \<open>(coord, zoom, lod)\<close>: the layers are the crop if there is one, the composite and the new
  image, which is the last layer, and when its decode completes the cache holds that image at
  \<open>(zoom, coord.y, coord.x, lod)\<close>.
\<close>

theorem getTileContent_miss:
  assumes "cache_get (imageCache s) zoom (pt_y coord) (pt_x coord) lod = None"
    and "lod = max (min (levelOfDetail s - zoom) (maxOversample s)) 0"
  shows "if snd (tileFromLarger (tileSize s) (imageCache s) zoom coord lod) = Some 0
         then \<exists>cv. fst (tileFromLarger (tileSize s) (imageCache s) zoom coord lod) = Some cv
                \<and> getTileContent s coord zoom = ([CanvasLayer cv], s)
         else if snd (tileFromSmaller (tileSize s) (imageCache s) zoom coord lod
                  (case snd (tileFromLarger (tileSize s) (imageCache s) zoom coord lod) of
                     None \<Rightarrow> maxOversample s + 1
                   | Some d \<Rightarrow> if d = 0 then maxOversample s + 1 else d))
         then getTileContent s coord zoom =
                ([CanvasLayer (fst (tileFromSmaller (tileSize s) (imageCache s) zoom coord lod
                    (case snd (tileFromLarger (tileSize s) (imageCache s) zoom coord lod) of
                       None \<Rightarrow> maxOversample s + 1
                     | Some d \<Rightarrow> if d = 0 then maxOversample s + 1 else d)))], s)
         else getTileContent s coord zoom =
                ((case fst (tileFromLarger (tileSize s) (imageCache s) zoom coord lod) of
                    None \<Rightarrow> []
                  | Some c \<Rightarrow> [CanvasLayer c])
                 @ [CanvasLayer (fst (tileFromSmaller (tileSize s) (imageCache s) zoom coord lod
                      (case snd (tileFromLarger (tileSize s) (imageCache s) zoom coord lod) of
                         None \<Rightarrow> maxOversample s + 1
                       | Some d \<Rightarrow> if d = 0 then maxOversample s + 1 else d))),
                    ImageLayer \<lparr>img_id = next_id s, img_coord = coord, img_zoom = zoom,
                                img_lod = lod\<rparr>],
                 s\<lparr>next_id := Suc (next_id s),
                   pending := pending s @
                     [\<lparr>f_image = \<lparr>img_id = next_id s, img_coord = coord, img_zoom = zoom,
                                   img_lod = lod\<rparr>,
                       f_zoom = zoom, f_coord = coord, f_lod = lod\<rparr>]\<rparr>)
            \<and> last (fst (getTileContent s coord zoom)) =
                ImageLayer \<lparr>img_id = next_id s, img_coord = coord, img_zoom = zoom, img_lod = lod\<rparr>
            \<and> cache_get (imageCache (decodeResolved (snd (getTileContent s coord zoom))
                                        (length (pending s))))
                  zoom (pt_y coord) (pt_x coord) lod =
                Some \<lparr>img_id = next_id s, img_coord = coord, img_zoom = zoom, img_lod = lod\<rparr>"
proof -
  have g: "getTileContent s coord zoom = createTileContent s coord zoom lod"
    using assms by (simp add: getTileContent_def Let_def)
  have lod: "0 \<le> lod" using assms(2) by simp
  show ?thesis
  proof (cases "snd (tileFromLarger (tileSize s) (imageCache s) zoom coord lod) = Some 0")
    case True
    then obtain cv where "tileFromLarger (tileSize s) (imageCache s) zoom coord lod = (Some cv, Some 0)"
      using tileFromLarger_cases [of "tileSize s" "imageCache s" zoom coord lod] by auto
    then show ?thesis
      unfolding g by (simp add: createTileContent_def Let_def)
  next
    case False
    then show ?thesis
      unfolding g
      using lod createTileContent_last [of s zoom coord lod]
      by (simp add: createTileContent_def Let_def fetchTile_def decodeResolved_def
            cache_get_store nth_append)
  qed
qed


text \<open>
  Three requests that miss the cache. The first request on a new map type starts a fetch,
  whose completion fills the cell. The request \<open>(zoom 1, y 0, x 0)\<close> in \<open>ancestorState\<close>
  finds the root tile, an ancestor of difference 0, and returns its crop alone. The request
  \<open>(zoom 0, y 0, x 0)\<close> in \<open>grandchildrenState\<close> finds no ancestor and a complete composite, and
  returns the composite alone.
\<close>

theorem getTileContent_miss_witness:
  "cache_get (imageCache (newWmsMapType 256 0 2)) 0 0 0 0 = None
   \<and> getTileContent (newWmsMapType 256 0 2) \<lparr>pt_x = 0, pt_y = 0\<rparr> 0 =
       ([CanvasLayer \<lparr>cv_width = 256, cv_height = 256, cv_draws = []\<rparr>,
         ImageLayer (tileImage 0 0 0 0 0)],
        (newWmsMapType 256 0 2)\<lparr>next_id := 1,
          pending := [\<lparr>f_image = tileImage 0 0 0 0 0, f_zoom = 0,
                      f_coord = \<lparr>pt_x = 0, pt_y = 0\<rparr>, f_lod = 0\<rparr>]\<rparr>)
   \<and> cache_get (imageCache (decodeResolved
          (snd (getTileContent (newWmsMapType 256 0 2) \<lparr>pt_x = 0, pt_y = 0\<rparr> 0)) 0)) 0 0 0 0
       = Some (tileImage 0 0 0 0 0)
   \<and> cache_get (imageCache ancestorState) 1 0 0 0 = None
   \<and> getTileContent ancestorState \<lparr>pt_x = 0, pt_y = 0\<rparr> 1 =
       ([CanvasLayer \<lparr>cv_width = 256, cv_height = 256,
           cv_draws = [\<lparr>dc_image = tileImage 1 0 0 0 1, dc_x = 0, dc_y = 0,
                        dc_w = 512, dc_h = 512\<rparr>]\<rparr>],
        ancestorState)
   \<and> cache_get (imageCache grandchildrenState) 0 0 0 2 = None
   \<and> getTileContent grandchildrenState \<lparr>pt_x = 0, pt_y = 0\<rparr> 0 =
       ([CanvasLayer grandchildrenComposite], grandchildrenState)"
proof -
  let ?s = "newWmsMapType 256 0 2"
  have e: "\<forall>z y x. cache_mipmap (imageCache ?s) z y x = None"
    by (simp add: newWmsMapType_def)
  have miss: "cache_get (imageCache ?s) 0 (pt_y \<lparr>pt_x = 0, pt_y = 0\<rparr>) (pt_x \<lparr>pt_x = 0, pt_y = 0\<rparr>) 0 = None"
    by (simp add: newWmsMapType_def)
  have lod: "(0::int) = max (min (levelOfDetail ?s - 0) (maxOversample ?s)) 0"
    by (simp add: newWmsMapType_def)
  note r = getTileContent_miss [OF miss lod, unfolded tileFromLarger_empty [OF e]
             tileFromSmaller_empty [OF e], simplified]
  note r1 = r [THEN conjunct1]
  note r3 = r [THEN conjunct2, THEN conjunct2, unfolded r1]
  have a1: "getTileContent (newWmsMapType 256 0 2) \<lparr>pt_x = 0, pt_y = 0\<rparr> 0 =
       ([CanvasLayer \<lparr>cv_width = 256, cv_height = 256, cv_draws = []\<rparr>,
         ImageLayer (tileImage 0 0 0 0 0)],
        (newWmsMapType 256 0 2)\<lparr>next_id := 1,
          pending := [\<lparr>f_image = tileImage 0 0 0 0 0, f_zoom = 0,
                      f_coord = \<lparr>pt_x = 0, pt_y = 0\<rparr>, f_lod = 0\<rparr>]\<rparr>)"
    unfolding r1 by (simp add: tileImage_def newWmsMapType_def createCanvas_in_range)
  have a2: "cache_get (imageCache (decodeResolved
          (snd (getTileContent (newWmsMapType 256 0 2) \<lparr>pt_x = 0, pt_y = 0\<rparr> 0)) 0)) 0 0 0 0
       = Some (tileImage 0 0 0 0 0)"
    unfolding r1 using r3 by (simp add: tileImage_def newWmsMapType_def)
  have missb: "cache_get (imageCache ancestorState) 1 (pt_y \<lparr>pt_x = 0, pt_y = 0\<rparr>)
                 (pt_x \<lparr>pt_x = 0, pt_y = 0\<rparr>) 0 = None"
    by (simp add: ancestorState_eq cache_get_store)
  have lodb: "(0::int) = max (min (levelOfDetail ancestorState - 1) (maxOversample ancestorState)) 0"
    by (simp add: ancestorState_eq)
  have b: "getTileContent ancestorState \<lparr>pt_x = 0, pt_y = 0\<rparr> 1 =
       ([CanvasLayer \<lparr>cv_width = 256, cv_height = 256,
           cv_draws = [\<lparr>dc_image = tileImage 1 0 0 0 1, dc_x = 0, dc_y = 0,
                        dc_w = 512, dc_h = 512\<rparr>]\<rparr>],
        ancestorState)"
    using getTileContent_miss [OF missb lodb] by (simp add: ancestorState_larger)
  have missc: "cache_get (imageCache grandchildrenState) 0 (pt_y \<lparr>pt_x = 0, pt_y = 0\<rparr>)
                 (pt_x \<lparr>pt_x = 0, pt_y = 0\<rparr>) 2 = None"
    by (simp add: grandchildrenState_def newWmsMapType_def grandchildrenCache_def cache_get_store)
  have lodc: "(2::int) = max (min (levelOfDetail grandchildrenState - 0)
                                  (maxOversample grandchildrenState)) 0"
    by (simp add: grandchildrenState_def newWmsMapType_def)
  have c: "getTileContent grandchildrenState \<lparr>pt_x = 0, pt_y = 0\<rparr> 0 =
       ([CanvasLayer grandchildrenComposite], grandchildrenState)"
    using getTileContent_miss [OF missc lodc]
    by (simp add: grandchildrenState_larger grandchildrenState_smaller)
  show ?thesis
    using miss a1 a2 missb b missc c by simp
qed

text \<open>
  C3 as stated fails: the request \<open>(zoom 1, y 0, x 0)\<close> misses the cache at its LOD 0, the
  root tile at LOD 1 is an ancestor of difference 0, and \<open>getTileContent\<close> returns its crop
  and starts no fetch.
\<close>

theorem getTileContent_miss_counterexample:
  "cache_get (imageCache ancestorState) 1 0 0
      (max (min (levelOfDetail ancestorState - 1) (maxOversample ancestorState)) 0) = None
   \<and> pending ancestorState = []
   \<and> getTileContent ancestorState \<lparr>pt_x = 0, pt_y = 0\<rparr> 1 =
       ([CanvasLayer \<lparr>cv_width = 256, cv_height = 256,
           cv_draws = [\<lparr>dc_image = tileImage 1 0 0 0 1, dc_x = 0, dc_y = 0,
                        dc_w = 512, dc_h = 512\<rparr>]\<rparr>],
        ancestorState)
   \<and> pending (snd (getTileContent ancestorState \<lparr>pt_x = 0, pt_y = 0\<rparr> 1)) = []"
proof -
  have c: "getTileContent ancestorState \<lparr>pt_x = 0, pt_y = 0\<rparr> 1 =
       ([CanvasLayer \<lparr>cv_width = 256, cv_height = 256,
           cv_draws = [\<lparr>dc_image = tileImage 1 0 0 0 1, dc_x = 0, dc_y = 0,
                        dc_w = 512, dc_h = 512\<rparr>]\<rparr>],
        ancestorState)"
    unfolding ancestorState_eq
    by (simp add: getTileContent_def createTileContent_def cache_get_store
          tileFromLarger_def tileFromLarger_loop.simps cache_mipmap_store mipmap_set_def
          js_sar_def js_shl_def findNearestLod_def nearest_visit_def js_ge_def Let_def
          createCanvas_in_range)
  show ?thesis
    unfolding c by (simp add: ancestorState_eq cache_get_store)
qed

section \<open>The lifetime of a cache entry\<close>


text \<open>Only a completed decode changes the cache.\<close>

lemma createTileContent_cache [simp]:
  "imageCache (snd (createTileContent s coord zoom lod)) = imageCache s"
  by (simp add: createTileContent_fetch)

lemma getTileContent_cache [simp]:
  "imageCache (snd (getTileContent s coord zoom)) = imageCache s"
  by (simp add: getTileContent_def Let_def split: option.splits)

lemma getTileContent_pending:
  "pending (snd (getTileContent s coord zoom)) = pending s
   \<or> pending (snd (getTileContent s coord zoom)) = pending s @
        [\<lparr>f_image = \<lparr>img_id = next_id s, img_coord = coord, img_zoom = zoom,
                      img_lod = max (min (levelOfDetail s - zoom) (maxOversample s)) 0\<rparr>,
          f_zoom = zoom, f_coord = coord,
          f_lod = max (min (levelOfDetail s - zoom) (maxOversample s)) 0\<rparr>]"
  by (simp add: getTileContent_def Let_def createTileContent_fetch split: option.splits)

lemma getTile_cache [simp]: "imageCache (snd (getTile s coord zoom)) = imageCache s"
  by (simp add: getTile_def Let_def)

lemma refreshTile_cache [simp]: "imageCache (refreshTile entry s) = imageCache s"
  by (simp add: refreshTile_def Let_def)

lemma fold_refreshTile_cache [simp]: "imageCache (fold refreshTile es s) = imageCache s"
  by (induction es arbitrary: s) simp_all

lemma refreshTiles_cache [simp]: "imageCache (refreshTiles s) = imageCache s"
  by (simp add: refreshTiles_def)

text \<open>A fetch, a cache and a state whose images are the ones requested for their cells.\<close>

definition fetch_ok :: "fetch \<Rightarrow> bool" where
  "fetch_ok f =
     (0 \<le> f_lod f \<and> img_zoom (f_image f) = f_zoom f \<and> img_coord (f_image f) = f_coord f
      \<and> img_lod (f_image f) = f_lod f)"

definition cache_ok :: "cache \<Rightarrow> bool" where
  "cache_ok ic =
     (\<forall>z y x l img. cache_get ic z y x l = Some img \<longrightarrow>
        img_zoom img = z \<and> img_coord img = \<lparr>pt_x = x, pt_y = y\<rparr> \<and> img_lod img = l)"

definition state_ok :: "state \<Rightarrow> bool" where
  "state_ok s = (cache_ok (imageCache s) \<and> (\<forall>f\<in>set (pending s). fetch_ok f))"

lemma getTileContent_ok: "state_ok s \<Longrightarrow> state_ok (snd (getTileContent s coord zoom))"
  using getTileContent_pending [of s coord zoom]
  by (auto simp: state_ok_def fetch_ok_def)

lemma state_ok_frame:
  "imageCache s' = imageCache s \<Longrightarrow> pending s' = pending s \<Longrightarrow> state_ok s' = state_ok s"
  by (simp add: state_ok_def)

lemma getTile_ok: "state_ok s \<Longrightarrow> state_ok (snd (getTile s coord zoom))"
proof -
  assume ok: "state_ok s"
  have "state_ok (s\<lparr>next_id := Suc (next_id s)\<rparr>)"
    using ok by (simp add: state_ok_def)
  then have "state_ok (snd (getTileContent (s\<lparr>next_id := Suc (next_id s)\<rparr>) coord zoom))"
    by (rule getTileContent_ok)
  then show ?thesis
    by (simp add: getTile_def Let_def state_ok_def)
qed

lemma refreshTile_ok: "state_ok s \<Longrightarrow> state_ok (refreshTile entry s)"
  using getTileContent_ok [of s "fst (snd entry)" "snd (snd entry)"]
  by (simp add: refreshTile_def Let_def state_ok_def)

lemma fold_refreshTile_ok: "state_ok s \<Longrightarrow> state_ok (fold refreshTile es s)"
  by (induction es arbitrary: s) (simp_all add: refreshTile_ok)

lemma cache_store_ok:
  assumes "cache_ok ic" "0 \<le> lod" "img_zoom img = zoom" "img_coord img = \<lparr>pt_x = x, pt_y = y\<rparr>"
    "img_lod img = lod"
  shows "cache_ok (cache_store ic zoom y x lod img)"
  using assms unfolding cache_ok_def
  by (auto simp: cache_get_store split: if_splits)

lemma decodeResolved_ok: "state_ok s \<Longrightarrow> state_ok (decodeResolved s k)"
proof (cases "k < length (pending s)")
  case False
  assume "state_ok s"
  with False show ?thesis by (simp add: decodeResolved_def)
next
  case True
  assume ok: "state_ok s"
  let ?f = "pending s ! k"
  have f: "fetch_ok ?f" using ok True by (simp add: state_ok_def)
  have c: "cache_ok (cache_store (imageCache s) (f_zoom ?f) (pt_y (f_coord ?f))
                       (pt_x (f_coord ?f)) (f_lod ?f) (f_image ?f))"
    using ok f by (intro cache_store_ok) (auto simp: state_ok_def fetch_ok_def)
  have "set (take k (pending s) @ drop (Suc k) (pending s)) \<subseteq> set (pending s)"
    using set_take_subset [of k "pending s"] set_drop_subset [of "Suc k" "pending s"] by auto
  with ok c True show ?thesis
    by (auto simp: decodeResolved_def Let_def state_ok_def)
qed

lemma decodeRejected_ok: "state_ok s \<Longrightarrow> state_ok (decodeRejected s k)"
proof -
  assume ok: "state_ok s"
  have "set (take k (pending s) @ drop (Suc k) (pending s)) \<subseteq> set (pending s)"
    using set_take_subset [of k "pending s"] set_drop_subset [of "Suc k" "pending s"] by auto
  with ok show ?thesis
    by (auto simp: decodeRejected_def state_ok_def)
qed

lemma step_ok: "state_ok s \<Longrightarrow> state_ok (step s e)"
  by (cases e)
     (simp_all add: getTile_ok releaseTile_def refreshTiles_def fold_refreshTile_ok
        decodeResolved_ok decodeRejected_ok state_ok_def [of "_\<lparr>activeTiles := _\<rparr>"]
        state_ok_def [of "_\<lparr>levelOfDetail := _\<rparr>"] state_ok_def [of "_\<lparr>maxOversample := _\<rparr>"]
        state_ok_def [of s])

lemma run_ok: "state_ok s \<Longrightarrow> state_ok (run s es)"
  unfolding run_def by (induction es arbitrary: s) (simp_all add: step_ok)

lemma newWmsMapType_ok: "state_ok (newWmsMapType ts lod mo)"
  by (simp add: state_ok_def cache_ok_def newWmsMapType_def)

lemma releaseTile_cache [simp]: "imageCache (releaseTile s tile) = imageCache s"
  by (simp add: releaseTile_def)

lemma decodeRejected_cache [simp]: "imageCache (decodeRejected s k) = imageCache s"
  by (simp add: decodeRejected_def)

lemma decodeResolved_cache:
  "imageCache (decodeResolved s k) =
     (if k < length (pending s)
      then cache_store (imageCache s) (f_zoom (pending s ! k)) (pt_y (f_coord (pending s ! k)))
             (pt_x (f_coord (pending s ! k))) (f_lod (pending s ! k)) (f_image (pending s ! k))
      else imageCache s)"
  by (simp add: decodeResolved_def Let_def)

lemma step_keeps:
  "cache_get (imageCache s) z y x l \<noteq> None \<Longrightarrow> cache_get (imageCache (step s e)) z y x l \<noteq> None"
  by (cases e) (auto simp: decodeResolved_cache cache_get_store)

lemma run_keeps:
  "cache_get (imageCache s) z y x l \<noteq> None \<Longrightarrow> cache_get (imageCache (run s es)) z y x l \<noteq> None"
  unfolding run_def
proof (induction es arbitrary: s)
  case Nil
  then show ?case by simp
next
  case (Cons e es)
  from Cons.prems have "cache_get (imageCache (step s e)) z y x l \<noteq> None"
    by (rule step_keeps)
  then show ?case using Cons.IH [of "step s e"] by simp
qed

text \<open>
  C1 (amended). A completed decode of a fetch for the cell \<open>(zoom, y, x, lod)\<close> stores its
  image there, whatever the cell held before. An entry changes by no other operation: after
  any operation the cell holds the image it held, or the operation is the completed decode of
  a fetch for that cell and the cell holds that fetch's image. Hence a cell that holds an
  image holds one after every sequence of operations, and in every state reached from a new
  map type the image a cell holds was fetched for exactly that tile and LOD.
\<close>

theorem cache_entry_lifetime:
  "(k < length (pending s) \<and> f_zoom (pending s ! k) = z
      \<and> f_coord (pending s ! k) = \<lparr>pt_x = x, pt_y = y\<rparr> \<and> f_lod (pending s ! k) = l \<and> 0 \<le> l
      \<longrightarrow> cache_get (imageCache (step s (DecodeResolved k))) z y x l
            = Some (f_image (pending s ! k)))
   \<and> (cache_get (imageCache s) z y x l = Some img \<longrightarrow>
      cache_get (imageCache (step s e)) z y x l = Some img
      \<or> (\<exists>k<length (pending s). e = DecodeResolved k
            \<and> f_zoom (pending s ! k) = z \<and> f_coord (pending s ! k) = \<lparr>pt_x = x, pt_y = y\<rparr>
            \<and> cache_get (imageCache (step s e)) z y x l = Some (f_image (pending s ! k))))
   \<and> (cache_get (imageCache s) z y x l \<noteq> None \<longrightarrow>
        cache_get (imageCache (run s es)) z y x l \<noteq> None)
   \<and> (cache_get (imageCache (run (newWmsMapType ts lod mo) es)) z y x l = Some img \<longrightarrow>
        img_zoom img = z \<and> img_coord img = \<lparr>pt_x = x, pt_y = y\<rparr> \<and> img_lod img = l)"
proof -
  have p0: "cache_get (imageCache (step s (DecodeResolved k))) z y x l
            = Some (f_image (pending s ! k))"
    if "k < length (pending s) \<and> f_zoom (pending s ! k) = z
      \<and> f_coord (pending s ! k) = \<lparr>pt_x = x, pt_y = y\<rparr> \<and> f_lod (pending s ! k) = l \<and> 0 \<le> l"
    using that by (auto simp: decodeResolved_cache cache_get_store)
  have p1: "cache_get (imageCache (step s e)) z y x l = Some img
      \<or> (\<exists>k<length (pending s). e = DecodeResolved k
            \<and> f_zoom (pending s ! k) = z \<and> f_coord (pending s ! k) = \<lparr>pt_x = x, pt_y = y\<rparr>
            \<and> cache_get (imageCache (step s e)) z y x l = Some (f_image (pending s ! k)))"
    if a: "cache_get (imageCache s) z y x l = Some img"
  proof -
  show "cache_get (imageCache (step s e)) z y x l = Some img
      \<or> (\<exists>k<length (pending s). e = DecodeResolved k
            \<and> f_zoom (pending s ! k) = z \<and> f_coord (pending s ! k) = \<lparr>pt_x = x, pt_y = y\<rparr>
            \<and> cache_get (imageCache (step s e)) z y x l = Some (f_image (pending s ! k)))"
  proof (cases e)
    case (DecodeResolved k)
    show ?thesis
    proof (cases "k < length (pending s)")
      case True
      let ?f = "pending s ! k"
      have pt: "f_coord ?f = \<lparr>pt_x = pt_x (f_coord ?f), pt_y = pt_y (f_coord ?f)\<rparr>" by simp
      show ?thesis
      proof (cases "f_zoom ?f = z \<and> pt_y (f_coord ?f) = y \<and> pt_x (f_coord ?f) = x
                    \<and> l = int (nat (f_lod ?f))")
        case True
        then have "f_coord ?f = \<lparr>pt_x = x, pt_y = y\<rparr>" using pt by simp
        with True \<open>k < length (pending s)\<close> DecodeResolved show ?thesis
          by (auto simp: decodeResolved_cache cache_get_store)
      next
        case False
        with a \<open>k < length (pending s)\<close> DecodeResolved show ?thesis
          by (auto simp: decodeResolved_cache cache_get_store)
      qed
    next
      case False
      with a DecodeResolved show ?thesis by (simp add: decodeResolved_cache)
    qed
  qed (use a in simp_all)
  qed
  have p2: "cache_get (imageCache (run s es)) z y x l \<noteq> None"
    if "cache_get (imageCache s) z y x l \<noteq> None"
    using that by (rule run_keeps)
  have p3: "img_zoom img = z \<and> img_coord img = \<lparr>pt_x = x, pt_y = y\<rparr> \<and> img_lod img = l"
    if a: "cache_get (imageCache (run (newWmsMapType ts lod mo) es)) z y x l = Some img"
  proof -
  have "cache_ok (imageCache (run (newWmsMapType ts lod mo) es))"
    using run_ok [OF newWmsMapType_ok, of ts lod mo es] by (simp add: state_ok_def)
  with a show ?thesis
    unfolding cache_ok_def by blast
  qed
  from p0 p1 p2 p3 show ?thesis by blast
qed


text \<open>The same tile requested twice before either image is decoded: two fetches in flight.\<close>

definition racingState :: state where
  "racingState =
     run (newWmsMapType 256 0 2)
       [GetTile \<lparr>pt_x = 0, pt_y = 0\<rparr> 0, GetTile \<lparr>pt_x = 0, pt_y = 0\<rparr> 0]"

lemma racingState_pending:
  "imageCache racingState = Map.empty
   \<and> pending racingState =
       [\<lparr>f_image = tileImage 1 0 0 0 0, f_zoom = 0, f_coord = \<lparr>pt_x = 0, pt_y = 0\<rparr>, f_lod = 0\<rparr>,
        \<lparr>f_image = tileImage 3 0 0 0 0, f_zoom = 0, f_coord = \<lparr>pt_x = 0, pt_y = 0\<rparr>, f_lod = 0\<rparr>]"
  by (simp add: racingState_def run_def getTile_def getTileContent_empty
        newWmsMapType_def tileImage_def Let_def)

lemma racingState_first:
  "imageCache (decodeResolved racingState 0) = cache_store Map.empty 0 0 0 0 (tileImage 1 0 0 0 0)
   \<and> pending (decodeResolved racingState 0) =
       [\<lparr>f_image = tileImage 3 0 0 0 0, f_zoom = 0, f_coord = \<lparr>pt_x = 0, pt_y = 0\<rparr>, f_lod = 0\<rparr>]"
  by (simp add: decodeResolved_def racingState_pending Let_def)

lemma racingState_second:
  "imageCache (decodeResolved (decodeResolved racingState 0) 0) =
     cache_store (cache_store Map.empty 0 0 0 0 (tileImage 1 0 0 0 0)) 0 0 0 0 (tileImage 3 0 0 0 0)"
  by (simp add: decodeResolved_cache racingState_first racingState_pending)

text \<open>
  C1 as stated fails: the first completed decode stores image 1 at \<open>(0, 0, 0, 0)\<close>, the
  second one replaces it by image 3.
\<close>

theorem cache_entry_lifetime_counterexample:
  "run (newWmsMapType 256 0 2)
     [GetTile \<lparr>pt_x = 0, pt_y = 0\<rparr> 0, GetTile \<lparr>pt_x = 0, pt_y = 0\<rparr> 0, DecodeResolved 0]
     = decodeResolved racingState 0
   \<and> run (newWmsMapType 256 0 2)
     [GetTile \<lparr>pt_x = 0, pt_y = 0\<rparr> 0, GetTile \<lparr>pt_x = 0, pt_y = 0\<rparr> 0, DecodeResolved 0,
      DecodeResolved 0]
     = decodeResolved (decodeResolved racingState 0) 0
   \<and> cache_get (imageCache (decodeResolved racingState 0)) 0 0 0 0 = Some (tileImage 1 0 0 0 0)
   \<and> cache_get (imageCache (decodeResolved (decodeResolved racingState 0) 0)) 0 0 0 0
       = Some (tileImage 3 0 0 0 0)
   \<and> tileImage 1 0 0 0 0 \<noteq> tileImage 3 0 0 0 0"
  by (simp add: racingState_first racingState_second cache_get_store)
     (simp add: racingState_def run_def tileImage_def)

text \<open>After the first decode: a later request keeps image 1, the second decode stores image 3.\<close>

theorem cache_entry_lifetime_witness:
  "cache_get (imageCache (decodeResolved racingState 0)) 0 0 0 0 = Some (tileImage 1 0 0 0 0)
   \<and> cache_get (imageCache (step (decodeResolved racingState 0) (GetTile \<lparr>pt_x = 0, pt_y = 0\<rparr> 0)))
         0 0 0 0 = Some (tileImage 1 0 0 0 0)
   \<and> cache_get (imageCache (step (decodeResolved racingState 0) (DecodeResolved 0))) 0 0 0 0
       = Some (tileImage 3 0 0 0 0)
   \<and> cache_get (imageCache (run (decodeResolved racingState 0)
         [ReleaseTile 0, RefreshTiles, DecodeResolved 0, SetLevelOfDetail 1])) 0 0 0 0 \<noteq> None
   \<and> img_zoom (tileImage 1 0 0 0 0) = 0
   \<and> img_coord (tileImage 1 0 0 0 0) = \<lparr>pt_x = 0, pt_y = 0\<rparr>
   \<and> img_lod (tileImage 1 0 0 0 0) = 0"
proof -
  let ?s = "decodeResolved racingState 0"
  have h: "cache_get (imageCache ?s) 0 0 0 0 = Some (tileImage 1 0 0 0 0)"
    by (simp add: racingState_first cache_get_store)
  have r: "run (newWmsMapType 256 0 2)
     [GetTile \<lparr>pt_x = 0, pt_y = 0\<rparr> 0, GetTile \<lparr>pt_x = 0, pt_y = 0\<rparr> 0, DecodeResolved 0] = ?s"
    by (simp add: racingState_def run_def)
  have p: "pending ?s ! 0 =
             \<lparr>f_image = tileImage 3 0 0 0 0, f_zoom = 0, f_coord = \<lparr>pt_x = 0, pt_y = 0\<rparr>, f_lod = 0\<rparr>"
    by (simp add: racingState_first)
  note t = cache_entry_lifetime [where s = ?s and z = 0 and y = 0 and x = 0 and l = 0
              and img = "tileImage 1 0 0 0 0"]
  note t1 = t [where e = "GetTile \<lparr>pt_x = 0, pt_y = 0\<rparr> 0", THEN conjunct2, THEN conjunct1,
               rule_format, OF h]
  note t2 = t [where k = 0, THEN conjunct1, rule_format]
  note t3 = t [where es = "[ReleaseTile 0, RefreshTiles, DecodeResolved 0, SetLevelOfDetail 1]",
               THEN conjunct2, THEN conjunct2, THEN conjunct1, rule_format]
  note t4 = t [where ts = 256 and lod = 0 and mo = 2 and es = "[GetTile \<lparr>pt_x = 0, pt_y = 0\<rparr> 0,
                 GetTile \<lparr>pt_x = 0, pt_y = 0\<rparr> 0, DecodeResolved 0]",
               THEN conjunct2, THEN conjunct2, THEN conjunct2, rule_format, unfolded r, OF h]
  have a: "cache_get (imageCache (step ?s (GetTile \<lparr>pt_x = 0, pt_y = 0\<rparr> 0))) 0 0 0 0
             = Some (tileImage 1 0 0 0 0)"
    using t1 by simp
  have b: "cache_get (imageCache (step ?s (DecodeResolved 0))) 0 0 0 0 = Some (tileImage 3 0 0 0 0)"
    using t2 p by (simp add: racingState_first)
  have c: "cache_get (imageCache (run ?s
         [ReleaseTile 0, RefreshTiles, DecodeResolved 0, SetLevelOfDetail 1])) 0 0 0 0 \<noteq> None"
    using t3 h by simp
  from h a b c t4 show ?thesis by simp
qed

end
